(* ===== verification/Prelude.thy ===== *)
theory Prelude
  imports Main "HOL-Library.Word" "HOL-Library.Multiset"
begin

text \<open>
  What every component of the server model shares.

  \<^item> The machine types of the Go sources: bytes, the unsigned 32-bit frame length, the signed
    32-bit and 64-bit integers (read with \<open>sint\<close>). Go's \<open>int\<close> is 64 bits wide on the
    platforms the server is built for, and \<open>time.Duration\<close> is an \<open>int64\<close>.
  \<^item> The error values of the standard library's \<open>io\<close> and \<open>net\<close> packages.
  \<^item> \<open>encoding/binary\<close>'s big-endian conversion of a 32-bit word, with both round trips.
  \<^item> Go strings: a string is a sequence of bytes, here a \<open>char list\<close>; decimal printing of
    integers as \<open>fmt\<close>'s \<open>%d\<close> does it.
  \<^item> Generic lemmas on lists used by several components, and the collections of rewrite rules
    (\<open>io_simps\<close>, \<open>reg_simps\<close>) the component theories fill.
\<close>

unbundle bit_operations_syntax

section \<open>Machine types\<close>

type_synonym byte = "8 word"
type_synonym bytes = "byte list"
type_synonym u32 = "32 word"
type_synonym int32 = "32 word"
type_synonym int64 = "64 word"

datatype io_error = EOF | ErrUnexpectedEOF | ErrClosed | ErrBroken

named_theorems io_simps \<open>reading and writing frames\<close>
named_theorems reg_simps \<open>one step of the registry client\<close>

section \<open>Big-endian words\<close>

text \<open>\<open>binary.BigEndian.PutUint32\<close> and \<open>binary.BigEndian.Uint32\<close>.\<close>

definition PutUint32 :: "u32 \<Rightarrow> bytes" where
  "PutUint32 v = [ucast (drop_bit 24 v), ucast (drop_bit 16 v), ucast (drop_bit 8 v), ucast v]"

definition Uint32 :: "bytes \<Rightarrow> u32" where
  "Uint32 b = ucast (b ! 3) OR push_bit 8 (ucast (b ! 2)) OR
     push_bit 16 (ucast (b ! 1)) OR push_bit 24 (ucast (b ! 0))"

section \<open>Decimal printing\<close>

text \<open>\<open>fmt.Sprintf("%d", n)\<close>: the digits of the absolute value, after a minus sign if negative.\<close>

definition digit_char :: "nat \<Rightarrow> char" where
  "digit_char d = char_of (48 + d)"

fun show_nat :: "nat \<Rightarrow> string" where
  "show_nat n = (if n < 10 then [digit_char n] else show_nat (n div 10) @ [digit_char (n mod 10)])"

declare show_nat.simps [simp del]

definition show_int :: "int \<Rightarrow> string" where
  "show_int i = (if i < 0 then CHR ''-'' # show_nat (nat (- i)) else show_nat (nat i))"

section \<open>Strings and bytes\<close>

text \<open>The conversions \<open>[]byte(s)\<close> and \<open>string(b)\<close>.\<close>

definition byte_char :: "byte \<Rightarrow> char" where
  "byte_char b = char_of (unat b)"

definition string_bytes :: "string \<Rightarrow> bytes" where
  "string_bytes s = map of_char s"

lemma unat_of_char: "unat (of_char c :: byte) = of_char c"
proof -
  have "unat (word_of_nat (of_char c) :: byte) = of_char c"
    by (simp only: unsigned_of_nat) (simp add: take_bit_eq_mod)
  then show ?thesis by (simp only: of_nat_of_char)
qed

lemma string_of_string_bytes [simp]: "map byte_char (string_bytes s) = s"
  by (induction s) (simp_all add: string_bytes_def byte_char_def unat_of_char)

section \<open>Lemmas on words\<close>

lemma bit_byte_high [simp]: "8 \<le> n \<Longrightarrow> \<not> bit (b :: byte) n"
  by (auto dest: bit_imp_le_length)

lemma length_PutUint32 [simp]: "length (PutUint32 v) = 4"
  by (simp add: PutUint32_def)

lemma Uint32_PutUint32 [simp]: "Uint32 (PutUint32 v) = v"
proof (rule bit_word_eqI)
  fix n assume "n < LENGTH(32)"
  then consider "n < 8" | "8 \<le> n" "n < 16" | "16 \<le> n" "n < 24" | "24 \<le> n" "n < 32"
    by fastforce
  then show "bit (Uint32 (PutUint32 v)) n = bit v n"
    by cases (auto simp: PutUint32_def Uint32_def bit_simps)
qed

lemma PutUint32_Uint32: "length b = 4 \<Longrightarrow> PutUint32 (Uint32 b) = b"
proof -
  assume "length b = 4"
  then obtain b0 b1 b2 b3 where b: "b = [b0, b1, b2, b3]"
    by (auto simp: numeral_eq_Suc length_Suc_conv)
  show ?thesis
    unfolding b PutUint32_def Uint32_def
    by (auto intro!: bit_word_eqI simp: bit_simps)
qed

lemma unat_u32_of_nat: "n < 2 ^ 32 \<Longrightarrow> unat (word_of_nat n :: u32) = n"
  by (simp add: unat_of_nat)

lemma u32_gt_limit: "(word_of_nat n :: u32) > 16777216 \<longleftrightarrow> n mod 2 ^ 32 > 16777216"
  by (simp add: word_less_nat_alt unat_of_nat)

lemma sint_ucast_int32:
  assumes "0 \<le> sint (x :: int64)" "sint x < 2 ^ 31"
  shows "sint (ucast x :: int32) = sint x"
proof -
  have small: "sint (word_of_int i :: int32) = i" if "0 \<le> i" "i < 2 ^ 31" for i
    using that by (simp add: sint_sbintrunc' signed_take_bit_int_eq_self)
  have "uint x = sint x" using assms by (simp add: uint_sint take_bit_int_eq_self)
  then have "ucast x = (word_of_int (sint x) :: int32)" by (metis word_of_int_uint ucast_eq)
  with small [OF assms] show ?thesis by (simp only:)
qed

lemma sint_unat_small:
  assumes "unat (w :: int64) < 2 ^ 63"
  shows "sint w = int (unat w)"
proof -
  have "int (unat w) < int (2 ^ 63)" using assms by (simp only: of_nat_less_iff)
  then have u: "uint w < 2 ^ 63" by (simp only: uint_nat [symmetric]) simp
  have "- (2 ^ 63) \<le> uint w" by (rule order_trans [OF _ uint_ge_0]) simp
  with u show ?thesis by (simp add: sint_uint signed_take_bit_int_eq_self)
qed

section \<open>Lemmas on lists\<close>

lemma take_drop_prefix_append:
  assumes "xs = ys @ zs" "length ys \<le> m"
  shows "take m xs = ys @ take (m - length ys) zs" "drop m xs = drop (m - length ys) zs"
  using assms by auto

lemma nth_update_at: "j < length xs \<Longrightarrow> xs[i := x] ! j = (if i = j then x else xs ! j)"
  by (cases "i = j") simp_all

lemma sum_list_update_nat:
  "i < length xs \<Longrightarrow> sum_list (map f (xs[i := x])) + f (xs ! i) = sum_list (map f xs) + (f x :: nat)"
proof (induction xs arbitrary: i)
  case (Cons y ys)
  then show ?case by (cases i) auto
qed simp

lemma mset_partition:
  assumes "\<forall>x\<in>set xs. k x < (n :: nat)"
  shows "mset (map f xs) = (\<Sum>i<n. mset (map f (filter (\<lambda>x. k x = i) xs)))"
  using assms
proof (induction xs)
  case (Cons x xs)
  have "(\<Sum>i<n. mset (map f (filter (\<lambda>y. k y = i) (x # xs)))) =
      (\<Sum>i<n. (if i = k x then {#f x#} else {#}) + mset (map f (filter (\<lambda>y. k y = i) xs)))"
    by (intro sum.cong) auto
  also have "\<dots> = (\<Sum>i<n. if i = k x then {#f x#} else {#}) + mset (map f xs)"
    using Cons by (simp only: sum.distrib) simp
  also have "(\<Sum>i<n. if i = k x then {#f x#} else {#}) = {#f x#}"
    using Cons.prems by (subst sum.delta) auto
  finally show ?case by simp
qed simp

lemma mset_sum_nth: "(\<Sum>k<length xs. {#f (xs ! k)#}) = mset (map f xs)"
proof (induction xs rule: rev_induct)
  case (snoc x xs)
  have "(\<Sum>k<length xs. {#f ((xs @ [x]) ! k)#}) = (\<Sum>k<length xs. {#f (xs ! k)#})"
    by (intro sum.cong) (auto simp: nth_append)
  with snoc show ?case by simp
qed simp

section \<open>Lemmas on printing\<close>

lemma digit_char_inj: "d < 10 \<Longrightarrow> e < 10 \<Longrightarrow> digit_char d = digit_char e \<Longrightarrow> d = e"
  by (auto simp: digit_char_def dest!: arg_cong [where f = of_char])

lemma show_nat_nonempty [simp]: "show_nat n \<noteq> []"
  by (subst show_nat.simps) simp

lemmas show_nat_nonempty' [simp] = show_nat_nonempty [symmetric]

lemma show_nat_inj: "show_nat m = show_nat n \<Longrightarrow> m = n"
proof (induction m arbitrary: n rule: show_nat.induct)
  case (1 m)
  have eq: "(if m < 10 then [digit_char m] else show_nat (m div 10) @ [digit_char (m mod 10)]) =
      (if n < 10 then [digit_char n] else show_nat (n div 10) @ [digit_char (n mod 10)])"
    using "1.prems" by (simp only: show_nat.simps [of m] show_nat.simps [of n])
  show ?case
  proof (cases "m < 10 \<or> n < 10")
    case True
    with eq show ?thesis by (auto split: if_splits dest: digit_char_inj)
  next
    case False
    with eq have "m div 10 = n div 10" and "m mod 10 = n mod 10"
      using "1.IH" [of "n div 10"] digit_char_inj [of "m mod 10" "n mod 10"] by auto
    then show ?thesis by (metis mod_mult_div_eq)
  qed
qed

section \<open>Transition systems\<close>

text \<open>
  The concurrent components are step relations. An invariant that every step keeps holds in every
  state reached from one where it holds; a rank that every step lowers bounds the length of every
  run, and so some final state is reached.
\<close>

locale invariant_of =
  fixes step :: "'s \<Rightarrow> 's \<Rightarrow> bool" and inv :: "'s \<Rightarrow> bool"
  assumes inv_step: "inv s \<Longrightarrow> step s t \<Longrightarrow> inv t"
begin

lemma inv_reached: "step\<^sup>*\<^sup>* s t \<Longrightarrow> inv s \<Longrightarrow> inv t"
  by (induction rule: rtranclp_induct) (auto intro: inv_step)

end

locale terminating =
  fixes step :: "'s \<Rightarrow> 's \<Rightarrow> bool" and rank :: "'s \<Rightarrow> nat"
  assumes rank_step: "step s t \<Longrightarrow> rank t < rank s"
begin

lemma run_bound: "(step ^^ n) s t \<Longrightarrow> rank t + n \<le> rank s"
proof (induction n arbitrary: t)
  case 0
  then show ?case by simp
next
  case (Suc n)
  then obtain u where "(step ^^ n) s u" "step u t" by auto
  with Suc.IH [of u] rank_step [of u t] show ?case by simp
qed

lemma reaches_final: "\<exists>t. step\<^sup>*\<^sup>* s t \<and> (\<forall>u. \<not> step t u)"
proof (induction "rank s" arbitrary: s rule: less_induct)
  case less
  show ?case
  proof (cases "\<exists>u. step s u")
    case True
    then obtain u where u: "step s u" by blast
    with less [OF rank_step] obtain t where "step\<^sup>*\<^sup>* u t" "\<forall>v. \<not> step t v" by blast
    with u show ?thesis by (blast intro: converse_rtranclp_into_rtranclp)
  qed auto
qed

end

section \<open>Texts and their values\<close>

text \<open>A printer whose texts are read back: values that have a text are determined by it.\<close>

locale text_codec =
  fixes print_op :: "'a \<Rightarrow> string"
    and parse_op :: "string \<Rightarrow> 'a option"
    and ok :: "'a \<Rightarrow> bool"
  assumes parse_print: "ok x \<Longrightarrow> parse_op (print_op x) = Some x"
begin

lemma print_inj: "ok x \<Longrightarrow> ok y \<Longrightarrow> print_op x = print_op y \<Longrightarrow> x = y"
  by (metis option.inject parse_print)

lemma parse_the_only: "ok x \<Longrightarrow> ok y \<Longrightarrow> parse_op (print_op x) = Some y \<longleftrightarrow> print_op x = print_op y"
  by (metis option.inject parse_print)

end

end
