(* ===== verification/Codec.thy ===== *)
theory Codec
  imports Prelude "HOL-Library.Sublist"
begin

text \<open>
  The frame codec, \<open>internal/codec/codec.go\<close>, over the standard library's \<open>io\<close> interfaces.

  A frame is a four-byte big-endian length followed by that many bytes. \<open>ReadFrame\<close> and
  \<open>WriteFrame\<close> take any \<open>io.Reader\<close> and any \<open>io.Writer\<close>; they are modelled over the one
  operation each interface has. A read returns \<open>None\<close> when it blocks for ever, so a theorem that
  \<open>ReadFrame\<close> yields a frame also says that it returns.

  The connection is a TCP stream: the bytes arrive in chunks the sender does not control
  (\<open>chunks\<close>), and after the last chunk the peer has closed, reset, or stays silent (\<open>ending\<close>).
  The locale \<open>io_reader\<close> is the contract of \<open>io.Reader\<close> as a byte stream, \<open>io_writer\<close> that
  of \<open>io.Writer\<close>, and \<open>frame_link\<close> joins the two ends of a connection. The lemmas inside
  show that the result of \<open>ReadFrame\<close> depends on the byte stream only, never on its chunks.
\<close>

section \<open>The io interfaces\<close>

type_synonym 'r read_op = "nat \<Rightarrow> 'r \<Rightarrow> (bytes \<times> io_error option \<times> 'r) option"
type_synonym 'w write_op = "bytes \<Rightarrow> 'w \<Rightarrow> io_error option \<times> 'w"

text \<open>
  \<open>io.ReadAtLeast\<close> with \<open>min = len(buf)\<close>, which is \<open>io.ReadFull\<close>: read into the rest of the
  buffer until it is full or a read reports an error. A reader that keeps returning no bytes and
  no error makes the loop run for ever, which is \<open>None\<close>.
\<close>

partial_function (option) read_loop ::
    "'r read_op \<Rightarrow> nat \<Rightarrow> bytes \<Rightarrow> 'r \<Rightarrow> (bytes \<times> io_error option \<times> 'r) option" where
  "read_loop rd m buf r =
     (if length buf < m
      then Option.bind (rd (m - length buf) r)
             (\<lambda>(bs, e, r'). case e of
                 None \<Rightarrow> read_loop rd m (buf @ bs) r'
               | Some x \<Rightarrow> Some (buf @ bs, Some x, r'))
      else Some (buf, None, r))"

declare read_loop.simps [code]

definition ReadFull :: "'r read_op \<Rightarrow> nat \<Rightarrow> 'r \<Rightarrow> ((io_error + bytes) \<times> 'r) option" where
  "ReadFull rd m r =
     Option.bind (read_loop rd m [] r)
       (\<lambda>(buf, e, r').
          if m \<le> length buf then Some (Inr buf, r')
          else case e of
              None \<Rightarrow> Some (Inr buf, r')
            | Some x \<Rightarrow> Some (Inl (if buf \<noteq> [] \<and> x = EOF then ErrUnexpectedEOF else x), r'))"

section \<open>ReadFrame and WriteFrame\<close>

datatype codec_error = IOError io_error | ErrFrameTooLarge

definition ReadFrame :: "'r read_op \<Rightarrow> 'r \<Rightarrow> ((codec_error + bytes) \<times> 'r) option" where
  "ReadFrame rd r =
     Option.bind (ReadFull rd 4 r)
       (\<lambda>(hd, r1). case hd of
           Inl e \<Rightarrow> Some (Inl (IOError e), r1)
         | Inr header \<Rightarrow>
             (let len = Uint32 header in
              if len > 16 * 1024 * 1024 then Some (Inl ErrFrameTooLarge, r1)
              else Option.bind (ReadFull rd (unat len) r1)
                     (\<lambda>(body, r2). case body of
                         Inl e \<Rightarrow> Some (Inl (IOError e), r2)
                       | Inr data \<Rightarrow> Some (Inr data, r2))))"

definition frame_header :: "bytes \<Rightarrow> bytes" where
  "frame_header data = PutUint32 (word_of_nat (length data))"

definition WriteFrame :: "'w write_op \<Rightarrow> bytes \<Rightarrow> 'w \<Rightarrow> io_error option \<times> 'w" where
  "WriteFrame wr data w =
     (case wr (frame_header data) w of
        (Some e, w1) \<Rightarrow> (Some e, w1)
      | (None, w1) \<Rightarrow> wr data w1)"

section \<open>A TCP connection as reader and writer\<close>

record reader =
  chunks :: "bytes list"
  ending :: "io_error option"

definition conn_read :: "reader read_op" where
  "conn_read n r =
     (case chunks r of
        [] \<Rightarrow> (case ending r of None \<Rightarrow> None | Some e \<Rightarrow> Some ([], Some e, r))
      | c # cs \<Rightarrow>
          if length c \<le> n then Some (c, None, r\<lparr>chunks := cs\<rparr>)
          else Some (take n c, None, r\<lparr>chunks := drop n c # cs\<rparr>))"

definition pending :: "reader \<Rightarrow> bytes" where
  "pending r = concat (chunks r)"

text \<open>
  The sending side. \<open>room\<close> is the number of bytes the connection still takes before it fails
  (\<open>None\<close>: it never does); a write that does not fit is cut short and reports the error, as
  \<open>io.Writer\<close> requires of a short write. After \<open>Close\<close> every write fails.
\<close>

record writer =
  sent :: bytes
  room :: "nat option"
  closed :: bool

definition conn_write :: "writer write_op" where
  "conn_write p w =
     (if closed w then (Some ErrClosed, w)
      else case room w of
        None \<Rightarrow> (None, w\<lparr>sent := sent w @ p\<rparr>)
      | Some k \<Rightarrow>
          if length p \<le> k then (None, w\<lparr>sent := sent w @ p, room := Some (k - length p)\<rparr>)
          else (Some ErrBroken, w\<lparr>sent := sent w @ take k p, room := Some 0\<rparr>))"

lemmas write_defs [io_simps] = WriteFrame_def conn_write_def

definition write_dead :: "writer \<Rightarrow> bool" where
  "write_dead w \<longleftrightarrow> closed w \<or> room w = Some 0"

definition reader_of :: "bytes list \<Rightarrow> io_error option \<Rightarrow> reader" where
  "reader_of cs e = \<lparr>chunks = cs, ending = e\<rparr>"

definition open_writer :: writer where
  "open_writer = \<lparr>sent = [], room = None, closed = False\<rparr>"

section \<open>Frames on a byte stream: the specification\<close>

definition max_frame :: nat where
  "max_frame = 16777216"

definition encode_frame :: "bytes \<Rightarrow> bytes" where
  "encode_frame data = frame_header data @ data"

definition short_read :: "bytes \<Rightarrow> io_error \<Rightarrow> io_error" where
  "short_read s e = (if s \<noteq> [] \<and> e = EOF then ErrUnexpectedEOF else e)"

text \<open>
  What \<open>ReadFrame\<close> must return for the rest \<open>s\<close> of a stream that ends with \<open>e\<close>; the second
  component is what is left of the stream.
\<close>

definition frame_spec :: "bytes \<Rightarrow> io_error option \<Rightarrow> ((codec_error + bytes) \<times> bytes) option" where
  "frame_spec s e =
     (if length s < 4
      then map_option (\<lambda>x. (Inl (IOError (short_read s x)), [])) e
      else let n = unat (Uint32 (take 4 s)); s' = drop 4 s in
        if n > max_frame then Some (Inl ErrFrameTooLarge, s')
        else if length s' < n then map_option (\<lambda>x. (Inl (IOError (short_read s' x)), [])) e
        else Some (Inr (take n s'), drop n s'))"

text \<open>Reading \<open>n\<close> frames, one after the other, as the read loops of the server do.\<close>

fun ReadFrames :: "'r read_op \<Rightarrow> nat \<Rightarrow> 'r \<Rightarrow> (bytes list \<times> 'r) option" where
  "ReadFrames rd 0 r = Some ([], r)"
| "ReadFrames rd (Suc n) r =
     (case ReadFrame rd r of
        Some (Inr data, r') \<Rightarrow>
          (case ReadFrames rd n r' of None \<Rightarrow> None | Some (ds, r'') \<Rightarrow> Some (data # ds, r''))
      | _ \<Rightarrow> None)"

fun WriteFrames :: "'w write_op \<Rightarrow> bytes list \<Rightarrow> 'w \<Rightarrow> io_error option \<times> 'w" where
  "WriteFrames wr [] w = (None, w)"
| "WriteFrames wr (d # ds) w =
     (case WriteFrame wr d w of (Some e, w') \<Rightarrow> (Some e, w') | (None, w') \<Rightarrow> WriteFrames wr ds w')"

section \<open>Encoded frames\<close>

lemma length_frame_header [simp]: "length (frame_header data) = 4"
  by (simp add: frame_header_def)

lemma frame_spec_encode:
  assumes "length data \<le> max_frame"
  shows "frame_spec (encode_frame data @ rest) e = Some (Inr data, rest)"
  using assms
  by (simp add: frame_spec_def encode_frame_def frame_header_def max_frame_def unat_u32_of_nat Let_def)

lemma frame_spec_oversize:
  assumes "max_frame < length data" "length data < 2 ^ 32"
  shows "frame_spec (encode_frame data @ rest) e = Some (Inl ErrFrameTooLarge, data @ rest)"
  using assms
  by (simp add: frame_spec_def encode_frame_def frame_header_def max_frame_def unat_u32_of_nat Let_def)

lemma frame_spec_truncated:
  assumes "strict_prefix q (encode_frame d)" "length d \<le> max_frame"
  shows "\<exists>x. frame_spec q (Some EOF) = Some (Inl (IOError x), []) \<and> x \<in> {EOF, ErrUnexpectedEOF}"
proof (cases "length q < 4")
  case True
  then show ?thesis by (simp add: frame_spec_def short_read_def)
next
  case False
  from assms(1) obtain t where t: "frame_header d @ d = q @ t" "t \<noteq> []"
    by (auto simp: encode_frame_def strict_prefix_def prefix_def)
  then have hdr: "take 4 q = frame_header d" and body: "d = drop 4 q @ t"
    using False by (auto simp: append_eq_append_conv_if)
  have n: "unat (Uint32 (take 4 q)) = length d"
    using assms(2) hdr by (simp add: frame_header_def max_frame_def unat_u32_of_nat)
  have "length q - 4 < length d"
    using arg_cong [OF body, of length] t(2) by (cases t) auto
  with False assms(2) n show ?thesis
    by (simp add: frame_spec_def Let_def short_read_def)
qed

lemma frame_spec_consumes:
  assumes "frame_spec s e = Some (res, s')"
  shows "length s' \<le> length s" and "res = Inr data \<Longrightarrow> length s' + 4 \<le> length s"
  using assms by (auto simp: frame_spec_def Let_def split: if_splits)

section \<open>The contract of a reader\<close>

locale io_reader =
  fixes Read :: "'r read_op"
    and stream :: "'r \<Rightarrow> bytes"
    and eos :: "'r \<Rightarrow> io_error option"
    and stalls :: "'r \<Rightarrow> nat"
  assumes read_blocks: "0 < n \<Longrightarrow> Read n r = None \<Longrightarrow> stream r = [] \<and> eos r = None"
    and read_data: "0 < n \<Longrightarrow> Read n r = Some (bs, None, r') \<Longrightarrow>
      stream r = bs @ stream r' \<and> length bs \<le> n \<and> eos r' = eos r \<and> (bs = [] \<longrightarrow> stalls r' < stalls r)"
    and read_error: "0 < n \<Longrightarrow> Read n r = Some (bs, Some e, r') \<Longrightarrow>
      bs = [] \<and> stream r = [] \<and> eos r = Some e \<and> r' = r"
begin

text \<open>The loop of \<open>io.ReadFull\<close> ends, and with what the stream says.\<close>

lemma loop_full:
  assumes "m \<le> length buf + length (stream r)" "length buf \<le> m"
  shows "\<exists>r'. read_loop Read m buf r = Some (buf @ take (m - length buf) (stream r), None, r') \<and>
     stream r' = drop (m - length buf) (stream r) \<and> eos r' = eos r"
  using assms
proof (induction "(m - length buf, stalls r)" arbitrary: buf r
    rule: wf_induct_rule [OF wf_lex_prod [OF wf_less_than wf_less_than]])
  case (1 buf r)
  show ?case
  proof (cases "length buf < m")
    case False
    with "1.prems" show ?thesis by (subst read_loop.simps) simp
  next
    case True
    then have pos: "0 < m - length buf" by simp
    show ?thesis
    proof (cases "Read (m - length buf) r")
      case None
      from read_blocks [OF pos None] True "1.prems" show ?thesis by simp
    next
      case (Some p)
      obtain bs e r1 where p: "p = (bs, e, r1)" by (cases p)
      show ?thesis
      proof (cases e)
        case (Some x)
        with read_error [OF pos] \<open>Read _ r = Some p\<close> p True "1.prems" show ?thesis by fastforce
      next
        case None
        from read_data [OF pos] \<open>Read _ r = Some p\<close> p None
        have d: "stream r = bs @ stream r1" "length bs \<le> m - length buf" "eos r1 = eos r"
          "bs = [] \<longrightarrow> stalls r1 < stalls r" by blast+
        have "\<exists>r'. read_loop Read m (buf @ bs) r1 =
            Some ((buf @ bs) @ take (m - length (buf @ bs)) (stream r1), None, r') \<and>
            stream r' = drop (m - length (buf @ bs)) (stream r1) \<and> eos r' = eos r1"
        proof (rule "1.hyps")
          show "((m - length (buf @ bs), stalls r1), m - length buf, stalls r)
              \<in> less_than <*lex*> less_than"
            using d True by (cases bs) auto
        qed (use d "1.prems" True in auto)
        moreover have "read_loop Read m buf r = read_loop Read m (buf @ bs) r1"
          using True \<open>Read _ r = Some p\<close> p None by (subst read_loop.simps) simp
        ultimately show ?thesis
          using d take_drop_prefix_append [OF d(1,2)] by simp
      qed
    qed
  qed
qed

lemma loop_short:
  assumes "length buf + length (stream r) < m"
  shows "case eos r of
      None \<Rightarrow> read_loop Read m buf r = None
    | Some e \<Rightarrow> \<exists>r'. read_loop Read m buf r = Some (buf @ stream r, Some e, r') \<and>
        stream r' = [] \<and> eos r' = eos r"
  using assms
proof (induction "(m - length buf, stalls r)" arbitrary: buf r
    rule: wf_induct_rule [OF wf_lex_prod [OF wf_less_than wf_less_than]])
  case (1 buf r)
  then have pos: "0 < m - length buf" and lt: "length buf < m" by simp_all
  show ?case
  proof (cases "Read (m - length buf) r")
    case None
    from read_blocks [OF pos None] None lt show ?thesis by (subst read_loop.simps) simp
  next
    case (Some p)
    obtain bs e r1 where p: "p = (bs, e, r1)" by (cases p)
    show ?thesis
    proof (cases e)
      case (Some x)
      with read_error [OF pos] \<open>Read _ r = Some p\<close> p lt show ?thesis
        by (subst read_loop.simps) fastforce
    next
      case None
      from read_data [OF pos] \<open>Read _ r = Some p\<close> p None
      have d: "stream r = bs @ stream r1" "length bs \<le> m - length buf" "eos r1 = eos r"
        "bs = [] \<longrightarrow> stalls r1 < stalls r" by blast+
      have step: "read_loop Read m buf r = read_loop Read m (buf @ bs) r1"
        using lt \<open>Read _ r = Some p\<close> p None by (subst read_loop.simps) simp
      have "((m - length (buf @ bs), stalls r1), m - length buf, stalls r)
          \<in> less_than <*lex*> less_than"
        using d lt by (cases bs) auto
      moreover have "length (buf @ bs) + length (stream r1) < m"
        using "1.prems" d by simp
      ultimately show ?thesis
        using "1.hyps" [of "buf @ bs" r1] d by (simp add: step split: option.splits)
    qed
  qed
qed

lemma ReadFull_full:
  assumes "m \<le> length (stream r)"
  obtains r' where "ReadFull Read m r = Some (Inr (take m (stream r)), r')"
    "stream r' = drop m (stream r)" "eos r' = eos r"
  using loop_full [of m "[]" r] assms that by (auto simp: ReadFull_def)

lemma ReadFull_short_block:
  "length (stream r) < m \<Longrightarrow> eos r = None \<Longrightarrow> ReadFull Read m r = None"
  using loop_short [of "[]" r m] by (simp add: ReadFull_def)

lemma ReadFull_short_error:
  assumes "length (stream r) < m" "eos r = Some e"
  obtains r' where "ReadFull Read m r = Some (Inl (short_read (stream r) e), r')"
    "stream r' = []" "eos r' = eos r"
  using loop_short [of "[]" r m] assms that by (auto simp: ReadFull_def short_read_def)

lemma ReadFrame_refines:
  "case frame_spec (stream r) (eos r) of
      None \<Rightarrow> ReadFrame Read r = None
    | Some (res, s') \<Rightarrow> \<exists>r'. ReadFrame Read r = Some (res, r') \<and> stream r' = s' \<and> eos r' = eos r"
proof (cases "length (stream r) < 4")
  case True
  show ?thesis
  proof (cases "eos r")
    case None
    with True ReadFull_short_block [of r 4] show ?thesis
      by (simp add: frame_spec_def ReadFrame_def)
  next
    case (Some e)
    with True ReadFull_short_error [of r 4 e] show ?thesis
      by (fastforce simp: frame_spec_def ReadFrame_def)
  qed
next
  case False
  then obtain r1 where r1: "ReadFull Read 4 r = Some (Inr (take 4 (stream r)), r1)"
    "stream r1 = drop 4 (stream r)" "eos r1 = eos r"
    using ReadFull_full [of 4 r] by auto
  define n where "n = unat (Uint32 (take 4 (stream r)))"
  have limit: "Uint32 (take 4 (stream r)) > 16 * 1024 * 1024 \<longleftrightarrow> n > max_frame"
    by (simp add: n_def max_frame_def word_less_nat_alt)
  have unfold: "ReadFrame Read r =
      (if n > max_frame then Some (Inl ErrFrameTooLarge, r1)
       else Option.bind (ReadFull Read n r1)
              (\<lambda>(body, r2). case body of
                  Inl e \<Rightarrow> Some (Inl (IOError e), r2)
                | Inr data \<Rightarrow> Some (Inr data, r2)))"
    using r1(1) limit by (simp add: ReadFrame_def Let_def n_def)
  have spec: "frame_spec (stream r) (eos r) =
      (if n > max_frame then Some (Inl ErrFrameTooLarge, stream r1)
       else if length (stream r1) < n
         then map_option (\<lambda>x. (Inl (IOError (short_read (stream r1) x)), [])) (eos r1)
       else Some (Inr (take n (stream r1)), drop n (stream r1)))"
    using False r1 by (simp add: frame_spec_def Let_def n_def)
  consider "n > max_frame" | "n \<le> max_frame" "length (stream r1) < n" "eos r1 = None"
    | e where "n \<le> max_frame" "length (stream r1) < n" "eos r1 = Some e"
    | "n \<le> max_frame" "n \<le> length (stream r1)" by (cases "eos r1") fastforce+
  then show ?thesis
  proof cases
    case 1
    with r1 show ?thesis by (simp add: unfold spec)
  next
    case 2
    with ReadFull_short_block show ?thesis by (simp add: unfold spec)
  next
    case 3
    then obtain r2 where "ReadFull Read n r1 = Some (Inl (short_read (stream r1) e), r2)"
      "stream r2 = []" "eos r2 = eos r1" by (elim ReadFull_short_error)
    with 3 r1(3) show ?thesis unfolding unfold spec by simp
  next
    case 4
    then obtain r2 where "ReadFull Read n r1 = Some (Inr (take n (stream r1)), r2)"
      "stream r2 = drop n (stream r1)" "eos r2 = eos r1" by (elim ReadFull_full)
    with 4 r1(3) show ?thesis unfolding unfold spec by simp
  qed
qed

lemma ReadFrame_abs:
  "map_option (map_prod id stream) (ReadFrame Read r) = frame_spec (stream r) (eos r)"
  using ReadFrame_refines [of r] by (auto split: option.splits)

lemma ReadFrame_data:
  assumes "stream r = encode_frame data @ rest" "length data \<le> max_frame"
  obtains r' where "ReadFrame Read r = Some (Inr data, r')" "stream r' = rest" "eos r' = eos r"
  using ReadFrame_refines [of r] assms frame_spec_encode [of data rest "eos r"] that by auto

lemma ReadFrames_data:
  assumes "stream r = concat (map encode_frame ds) @ rest" "\<forall>d\<in>set ds. length d \<le> max_frame"
  shows "\<exists>r'. ReadFrames Read (length ds) r = Some (ds, r') \<and> stream r' = rest \<and> eos r' = eos r"
  using assms
proof (induction ds arbitrary: r)
  case Nil
  then show ?case by simp
next
  case (Cons d ds)
  then obtain r1 where r1: "ReadFrame Read r = Some (Inr d, r1)"
    "stream r1 = concat (map encode_frame ds) @ rest" "eos r1 = eos r"
    using ReadFrame_data [of r d "concat (map encode_frame ds) @ rest"] by auto
  with Cons.IH [of r1] Cons.prems show ?case by auto
qed

end

section \<open>The contract of a writer\<close>

locale io_writer =
  fixes Write :: "'w write_op"
    and written :: "'w \<Rightarrow> bytes"
  assumes write_ok: "Write p w = (None, w') \<Longrightarrow> written w' = written w @ p"
    and write_short: "Write p w = (Some e, w') \<Longrightarrow>
      \<exists>q. prefix q p \<and> (p \<noteq> [] \<longrightarrow> q \<noteq> p) \<and> written w' = written w @ q"
begin

lemma WriteFrame_ok:
  "WriteFrame Write data w = (None, w') \<Longrightarrow> written w' = written w @ encode_frame data"
  by (auto simp: WriteFrame_def encode_frame_def dest!: write_ok split: prod.splits option.splits)

lemma WriteFrame_failed:
  assumes "WriteFrame Write data w = (Some e, w')" "data \<noteq> []"
  obtains q where "strict_prefix q (encode_frame data)" "written w' = written w @ q"
proof -
  obtain e1 w1 where h: "Write (frame_header data) w = (e1, w1)" by fastforce
  show ?thesis
  proof (cases e1)
    case None
    with assms h have "Write data w1 = (Some e, w')" by (simp add: WriteFrame_def)
    from write_short [OF this] assms(2)
    obtain q where q: "strict_prefix q data" "written w' = written w1 @ q"
      by (auto simp: strict_prefix_def)
    have "strict_prefix (frame_header data @ q) (encode_frame data)"
      using q(1) by (simp add: encode_frame_def strict_prefix_def)
    with q write_ok h None that show ?thesis by simp
  next
    case (Some x)
    with assms h have "w1 = w'" by (simp add: WriteFrame_def)
    moreover from write_short [of "frame_header data" w x w1] h Some
    obtain q where q: "strict_prefix q (frame_header data)" "written w1 = written w @ q"
      by (auto simp: strict_prefix_def frame_header_def PutUint32_def)
    moreover from q(1) have "strict_prefix q (encode_frame data)"
      by (auto simp: encode_frame_def strict_prefix_def prefix_def)
    ultimately show ?thesis using that by blast
  qed
qed

lemma WriteFrames_ok:
  "WriteFrames Write ds w = (None, w') \<Longrightarrow> written w' = written w @ concat (map encode_frame ds)"
  by (induction ds arbitrary: w) (auto dest: WriteFrame_ok split: prod.splits option.splits)

end

text \<open>The two ends of one connection.\<close>

locale frame_link = io_reader Read stream eos stalls + io_writer Write written
  for Read :: "'r read_op" and stream eos stalls and Write :: "'w write_op" and written
begin

lemma link_roundtrip:
  assumes "WriteFrames Write ds w = (None, w')" "written w = []" "stream r = written w'"
    and "\<forall>d\<in>set ds. length d \<le> max_frame"
  shows "\<exists>r'. ReadFrames Read (length ds) r = Some (ds, r') \<and> stream r' = [] \<and> eos r' = eos r"
  using ReadFrames_data [of r ds "[]"] WriteFrames_ok [OF assms(1)] assms(2-4) by simp

lemma link_truncated:
  assumes "WriteFrame Write d w = (Some e, w')" "written w = []" "stream r = written w'"
    and "length d \<le> max_frame" "eos r = Some EOF" "d \<noteq> []"
  shows "\<exists>x r'. ReadFrame Read r = Some (Inl (IOError x), r') \<and> x \<in> {EOF, ErrUnexpectedEOF}"
proof -
  obtain q where q: "strict_prefix q (encode_frame d)" "stream r = q"
    using WriteFrame_failed [OF assms(1,6)] assms(2,3) by auto
  obtain x where "frame_spec q (Some EOF) = Some (Inl (IOError x), [])" "x \<in> {EOF, ErrUnexpectedEOF}"
    using frame_spec_truncated [OF q(1) assms(4)] by blast
  then show ?thesis using ReadFrame_refines [of r] q(2) assms(5) by auto
qed

end

section \<open>TCP connections meet the contracts\<close>

interpretation tcp_in: io_reader conn_read pending ending "\<lambda>r. length (chunks r)"
  by unfold_locales (auto simp: conn_read_def pending_def split: list.splits option.splits if_splits)

interpretation tcp_out: io_writer conn_write sent
proof unfold_locales
  fix p w w' assume "conn_write p w = (None, w')"
  then show "sent w' = sent w @ p"
    by (auto simp: conn_write_def split: option.splits if_splits)
next
  fix p w e w' assume fail: "conn_write p w = (Some e, w')"
  then obtain k where "sent w' = sent w @ take k p" "p \<noteq> [] \<longrightarrow> k < length p"
    by (auto simp: conn_write_def split: option.splits if_splits intro: that [of 0])
  then show "\<exists>q. prefix q p \<and> (p \<noteq> [] \<longrightarrow> q \<noteq> p) \<and> sent w' = sent w @ q"
    by (intro exI [of _ "take k p"]) (auto simp: take_is_prefix)
qed

interpretation tcp: frame_link conn_read pending ending "\<lambda>r. length (chunks r)" conn_write sent
  by unfold_locales

text \<open>A connection that is closed or full takes no further frame.\<close>

lemma conn_write_closed: "conn_write p w = (e, w') \<Longrightarrow> closed w' = closed w"
  by (auto simp: conn_write_def split: if_splits option.splits)

lemma WriteFrame_closed: "WriteFrame conn_write d w = (e, w') \<Longrightarrow> closed w' = closed w"
  by (auto simp: WriteFrame_def conn_write_closed split: prod.splits option.splits)

lemma WriteFrame_cases:
  assumes "WriteFrame conn_write d w = (e, w')"
  shows "e = None \<and> sent w' = sent w @ encode_frame d \<and> \<not> write_dead w \<or>
    e \<noteq> None \<and> write_dead w' \<and> (\<exists>q. prefix q (encode_frame d) \<and> sent w' = sent w @ q \<and> (write_dead w \<longrightarrow> q = []))"
proof (cases "write_dead w \<or> e = None")
  case True
  with assms show ?thesis
    by (auto simp: io_simps write_dead_def encode_frame_def
        split: if_splits option.splits)
next
  case False
  have cut: "\<exists>q. prefix q (frame_header d @ d) \<and> take k (frame_header d) = q"
    "\<exists>q. prefix q (frame_header d @ d) \<and> frame_header d @ take k d = q" for k
    by (auto simp: take_is_prefix intro: prefix_prefix)
  from False assms show ?thesis
    by (auto simp: io_simps write_dead_def encode_frame_def take_is_prefix
        intro: prefix_prefix split: if_splits option.splits)
qed

section \<open>Properties\<close>

text \<open>C3. Round trip over the network: messages of at most 16 MiB written with \<open>WriteFrame\<close> and
  cut into TCP chunks in any way are what the same number of \<open>ReadFrame\<close> calls return, in
  order, and nothing is left over.\<close>

theorem frames_roundtrip:
  assumes "WriteFrames conn_write ds open_writer = (None, w)"
    and "\<forall>d\<in>set ds. length d \<le> max_frame"
    and "concat cs = sent w"
  shows "\<exists>r'. ReadFrames conn_read (length ds) (reader_of cs e) = Some (ds, r') \<and>
    pending r' = [] \<and> ending r' = e"
  using tcp.link_roundtrip [OF assms(1) _ _ assms(2), of "reader_of cs e"] assms(3)
  by (simp add: open_writer_def reader_of_def pending_def)

theorem frames_roundtrip_witness:
  "\<exists>r'. ReadFrames conn_read 2 (reader_of [[0,0], [0,2,7], [9,0,0,0], [], [0]] (Some EOF)) =
    Some ([[7,9], []], r') \<and> pending r' = [] \<and> ending r' = Some EOF"
proof -
  have "WriteFrames conn_write [[7,9], []] open_writer = (None, \<lparr>sent = [0,0,0,2,7,9,0,0,0,0], room = None, closed = False\<rparr>)"
    by (simp add: io_simps open_writer_def frame_header_def PutUint32_def)
  from frames_roundtrip [OF this, of "[[0,0], [0,2,7], [9,0,0,0], [], [0]]" "Some EOF"]
  show ?thesis by (simp add: max_frame_def numeral_2_eq_2)
qed

text \<open>C10. \<open>ReadFrame\<close> on a connection computes the frame function of the byte stream, whatever the
  chunks: data, end of stream, a stream cut inside a frame, an oversized length and a peer that
  stays silent (\<open>None\<close>) included.\<close>

theorem ReadFrame_stream:
  "map_option (map_prod id pending) (ReadFrame conn_read r) = frame_spec (pending r) (ending r)"
  by (rule tcp_in.ReadFrame_abs)

text \<open>A frame cut short by a failing connection is never delivered: the reader gets an end of
  stream error in its place.\<close>

lemma truncated_frame_not_delivered:
  assumes "WriteFrame conn_write d \<lparr>sent = [], room = Some k, closed = False\<rparr> = (Some e, w)"
    and "length d \<le> max_frame" "concat cs = sent w"
  shows "\<exists>x r'. ReadFrame conn_read (reader_of cs (Some EOF)) = Some (Inl (IOError x), r') \<and>
    x \<in> {EOF, ErrUnexpectedEOF}"
proof (cases "d = []")
  case True
  with assms(1) have "length (sent w) < 4"
    by (auto simp: io_simps split: if_splits)
  with assms(3) tcp_in.ReadFrame_refines [of "reader_of cs (Some EOF)"] show ?thesis
    by (auto simp: reader_of_def pending_def frame_spec_def short_read_def split: if_splits)
next
  case False
  then show ?thesis
    using tcp.link_truncated [OF assms(1) _ _ assms(2), of "reader_of cs (Some EOF)"] assms(3)
    by (simp add: reader_of_def pending_def)
qed

lemma truncated_frame_not_delivered_witness:
  "\<exists>x r'. ReadFrame conn_read (reader_of [[0,0,0],[2,7]] (Some EOF)) = Some (Inl (IOError x), r') \<and>
    x \<in> {EOF, ErrUnexpectedEOF}"
proof -
  have "WriteFrame conn_write [7,9] \<lparr>sent = [], room = Some 5, closed = False\<rparr> =
      (Some ErrBroken, \<lparr>sent = [0,0,0,2,7], room = Some 0, closed = False\<rparr>)"
    by (simp add: io_simps frame_header_def PutUint32_def)
  from truncated_frame_not_delivered [OF this, of "[[0,0,0],[2,7]]"]
  show ?thesis by (simp add: max_frame_def)
qed

text \<open>\<open>WriteFrame\<close> does not check the limit \<open>ReadFrame\<close> enforces: a message of more than
  16 MiB (and less than 4 GiB) is written without an error, and the peer's \<open>ReadFrame\<close> answers
  \<open>ErrFrameTooLarge\<close>.\<close>

lemma WriteFrame_oversize_unreadable:
  assumes "max_frame < length d" "length d < 2 ^ 32" "concat cs = encode_frame d"
  shows "WriteFrame conn_write d open_writer = (None, \<lparr>sent = encode_frame d, room = None, closed = False\<rparr>) \<and>
    (\<exists>r'. ReadFrame conn_read (reader_of cs e) = Some (Inl ErrFrameTooLarge, r'))"
proof
  show "WriteFrame conn_write d open_writer = (None, \<lparr>sent = encode_frame d, room = None, closed = False\<rparr>)"
    by (simp add: io_simps open_writer_def encode_frame_def)
  have "frame_spec (pending (reader_of cs e)) (ending (reader_of cs e)) = Some (Inl ErrFrameTooLarge, d)"
    using frame_spec_oversize [OF assms(1,2), of "[]"] assms(3) by (simp add: reader_of_def pending_def)
  then show "\<exists>r'. ReadFrame conn_read (reader_of cs e) = Some (Inl ErrFrameTooLarge, r')"
    using tcp_in.ReadFrame_refines [of "reader_of cs e"] by auto
qed

lemma WriteFrame_oversize_unreadable_witness:
  "\<exists>r'. ReadFrame conn_read (reader_of [encode_frame (replicate 16777217 0)] None) =
    Some (Inl ErrFrameTooLarge, r')"
  using WriteFrame_oversize_unreadable [of "replicate 16777217 0" "[encode_frame (replicate 16777217 0)]" None]
  by (simp add: max_frame_def)

end
