(* ===== verification/Router.thy ===== *)
theory Router
  imports Prelude
begin

text \<open>
  The method router, \<open>internal/router/router.go\<close>: a map from \<open>"service.method"\<close> to the
  handler. The \<open>RWMutex\<close> makes each operation atomic, so \<open>Register\<close> and \<open>Route\<close> are
  functions on the map. The locale \<open>dispatch_table\<close> is what the server and the generated
  registration code rely on; it is interpreted on the router for names without a dot, which
  is what protobuf identifiers are.
\<close>

section \<open>The router\<close>

record 'h Router =
  handlers :: "string \<rightharpoonup> 'h"

definition New :: "'h Router" where
  "New = \<lparr>handlers = Map.empty\<rparr>"

definition route_key :: "string \<Rightarrow> string \<Rightarrow> string" where
  "route_key service meth = service @ ''.'' @ meth"

definition Register :: "string \<Rightarrow> string \<Rightarrow> 'h \<Rightarrow> 'h Router \<Rightarrow> 'h Router" where
  "Register service meth handler r = r\<lparr>handlers := (handlers r)(route_key service meth \<mapsto> handler)\<rparr>"

definition Route :: "'h Router \<Rightarrow> string \<Rightarrow> string \<Rightarrow> 'h option" where
  "Route r service meth = handlers r (route_key service meth)"

definition dot_free :: "string \<Rightarrow> bool" where
  "dot_free s \<longleftrightarrow> CHR ''.'' \<notin> set s"

text \<open>A sequence of registrations, as the generated \<open>RegisterXService\<close> functions make them.\<close>

fun register_all :: "(string \<times> string \<times> 'h) list \<Rightarrow> 'h Router \<Rightarrow> 'h Router" where
  "register_all [] r = r"
| "register_all ((s, m, h) # es) r = register_all es (Register s m h r)"

section \<open>Keys\<close>

text \<open>A key of two dot-free names has one dot only, so it splits in one way.\<close>

lemma dot_split_unique:
  "dot_free s \<Longrightarrow> dot_free m \<Longrightarrow> s @ CHR ''.'' # m = s' @ CHR ''.'' # m' \<Longrightarrow> s = s' \<and> m = m'"
proof (induction s arbitrary: s')
  case Nil
  then show ?case by (cases s') (auto simp: dot_free_def)
next
  case (Cons c s)
  then show ?case by (cases s') (auto simp: dot_free_def)
qed

lemma route_key_inj:
  "dot_free s \<Longrightarrow> dot_free m \<Longrightarrow> route_key s m = route_key s' m' \<longleftrightarrow> s = s' \<and> m = m'"
  using dot_split_unique [of s m s' m'] by (auto simp: route_key_def)

section \<open>The contract of a dispatch table\<close>

locale dispatch_table =
  fixes empty :: 't
    and add :: "string \<Rightarrow> string \<Rightarrow> 'h \<Rightarrow> 't \<Rightarrow> 't"
    and find :: "'t \<Rightarrow> string \<Rightarrow> string \<Rightarrow> 'h option"
    and valid :: "string \<Rightarrow> bool"
  assumes find_empty: "find empty s m = None"
    and find_add: "valid s \<Longrightarrow> valid m \<Longrightarrow>
      find (add s m h t) s' m' = (if s = s' \<and> m = m' then Some h else find t s' m')"
begin

definition add_all :: "(string \<times> string \<times> 'h) list \<Rightarrow> 't \<Rightarrow> 't" where
  "add_all es t = foldl (\<lambda>t (s, m, h). add s m h t) t es"

definition entries :: "(string \<times> string \<times> 'h) list \<Rightarrow> ((string \<times> string) \<times> 'h) list" where
  "entries es = map (\<lambda>(s, m, h). ((s, m), h)) es"

lemma find_add_all:
  assumes "\<forall>(s, m, h)\<in>set es. valid s \<and> valid m"
  shows "find (add_all es t) s' m' =
    (case map_of (rev (entries es)) (s', m') of None \<Rightarrow> find t s' m' | Some h \<Rightarrow> Some h)"
  using assms
proof (induction es rule: rev_induct)
  case Nil
  then show ?case by (simp add: add_all_def entries_def)
next
  case (snoc e es)
  obtain s m h where e: "e = (s, m, h)" by (cases e)
  have "add_all (es @ [e]) t = add s m h (add_all es t)" by (simp add: add_all_def e)
  then show ?case
    using snoc by (auto simp: e entries_def find_add)
qed

lemma find_distinct:
  assumes "\<forall>(s, m, h)\<in>set es. valid s \<and> valid m" "distinct (map (\<lambda>(s, m, h). (s, m)) es)" "(s, m, h) \<in> set es"
  shows "find (add_all es empty) s m = Some h"
proof -
  have "map fst (rev (entries es)) = rev (map (\<lambda>(s, m, h). (s, m)) es)"
    by (auto simp: entries_def rev_map [symmetric])
  then have "map_of (rev (entries es)) (s, m) = Some h"
    using assms(2,3) by (intro map_of_is_SomeI) (force simp: entries_def)+
  with find_add_all [OF assms(1), of empty s m] show ?thesis by auto
qed

end

interpretation rt: dispatch_table New Register Route dot_free
  by unfold_locales (auto simp: New_def Route_def Register_def dest: route_key_inj [THEN iffD1, OF _ _ sym])

lemma register_all_add_all: "register_all es r = rt.add_all es r"
  by (induction es r rule: register_all.induct) (simp_all add: rt.add_all_def)

section \<open>Properties\<close>

text \<open>C18. After a sequence of registrations under dot-free service and method names, \<open>Route\<close> finds
  for every requested pair, however spelled, exactly the handler registered last for that pair, and
  nothing for a pair that was never registered: no choice of names in a request reaches the
  handler of another method.\<close>

theorem Route_register_all:
  assumes "\<forall>(s, m, h)\<in>set es. dot_free s \<and> dot_free m"
  shows "Route (register_all es New) service meth =
    map_of (rev (map (\<lambda>(s, m, h). ((s, m), h)) es)) (service, meth)"
  using rt.find_add_all [OF assms, of New service meth]
  by (simp add: register_all_add_all rt.find_empty rt.entries_def split: option.splits)

theorem Route_register_all_witness:
  "Route (register_all [(''U'', ''login'', 1), (''U'', ''logout'', 2), (''U'', ''login'', 3)] New) ''U'' ''login''
     = Some (3 :: nat) \<and>
   Route (register_all [(''U'', ''login'', 1), (''U'', ''logout'', 2)] New) ''U.login'' [] = (None :: nat option)"
  using Route_register_all [of "[(''U'', ''login'', 1 :: nat), (''U'', ''logout'', 2), (''U'', ''login'', 3)]" "''U''" "''login''"]
    Route_register_all [of "[(''U'', ''login'', 1 :: nat), (''U'', ''logout'', 2)]" "''U.login''" "[]"]
  by (simp add: dot_free_def)

end
