(* ===== verification/Messages.thy ===== *)
theory Messages
  imports Prelude
begin

text \<open>
  The messages of the framework protocol, \<open>proto/framework/rpc.proto\<close> and
  \<open>proto/framework/registry.proto\<close>: what \<open>protoc\<close> turns into the Go types of package \<open>pb\<close>.
  The wire format belongs to the protobuf library: \<open>proto.Marshal\<close> and \<open>proto.Unmarshal\<close> are
  parameters of the definitions that call them, collected per protocol in the records
  \<open>rpc_pb\<close> and \<open>registry_pb\<close>. Both may fail, with the text of the error.
\<close>

section \<open>rpc.proto\<close>

record RpcRequest =
  RequestId :: string
  Service :: string
  Method :: string
  Payload :: bytes

record Error =
  Code :: int32
  Message :: string

record RpcResponse =
  RespRequestId :: string
  RespPayload :: bytes
  RespError :: "Error option"

record rpc_pb =
  unmarshal_request :: "bytes \<Rightarrow> string + RpcRequest"
  marshal_response :: "RpcResponse \<Rightarrow> string + bytes"

section \<open>registry.proto\<close>

record RegisterRequest =
  RegPort :: int32
  RegService :: string

record HeartbeatRequest =
  HbPort :: int32

record RegistryResponse =
  Success :: bool
  RespMessage :: string

record ServiceInfo =
  Ip :: string
  InfoPort :: int32

text \<open>The \<open>oneof\<close> of \<open>RegistryMessage\<close>; \<open>None\<close> is a message whose payload is not set.\<close>

datatype RegistryPayload =
    RM_Register RegisterRequest
  | RM_Heartbeat HeartbeatRequest
  | RM_Subscribe
  | RM_Response RegistryResponse
  | RM_ServiceList "(string \<times> ServiceInfo list) list"

type_synonym RegistryMessage = "RegistryPayload option"

record registry_pb =
  unmarshal_registry :: "bytes \<Rightarrow> string + RegistryMessage"
  marshal_registry :: "RegistryMessage \<Rightarrow> string + bytes"

end
