(* ===== verification/Server.thy ===== *)
theory Server
  imports Codec Router Messages
begin

text \<open>
  The connection handler of the RPC server, \<open>internal/server/server.go\<close>.

  \<open>handleConnection\<close> runs one goroutine that reads frames and one goroutine per routed request;
  all of them write to the connection, under the mutex \<open>writeMu\<close>. The model is a list of
  goroutines over one shared state: number 0 is the read loop, the others are the requests in the
  order they were read. \<open>goroutine_step\<close> lets one goroutine run up to its next interaction
  with the others (a frame read, a handler call, the mutex, one \<open>Write\<close> call), so a run of the
  connection is any interleaving of such steps. \<open>WriteFrame\<close> makes two \<open>Write\<close> calls, and
  they are two steps: that no other goroutine writes in between is proved, not assumed.

  Handlers read and change a state of their own (the database, the random source), the type
  variable \<open>'w\<close>. A handler call is one step.
\<close>

section \<open>Requests and responses\<close>

datatype handler_result = Reply bytes | Fail string | Panic string

type_synonym 'w HandlerFunc = "bytes \<Rightarrow> 'w \<Rightarrow> handler_result \<times> 'w"

definition error_response :: "string \<Rightarrow> int32 \<Rightarrow> string \<Rightarrow> RpcResponse" where
  "error_response request_id code msg =
     \<lparr>RespRequestId = request_id, RespPayload = [], RespError = Some \<lparr>Code = code, Message = msg\<rparr>\<rparr>"

text \<open>
  What the read loop does with a frame: answer it itself (\<open>Inl\<close>: not a request, or no such
  method) or start a goroutine for it (\<open>Inr\<close>).
\<close>

definition dispatch ::
    "rpc_pb \<Rightarrow> 'w HandlerFunc Router \<Rightarrow> bytes \<Rightarrow> RpcResponse + (RpcRequest \<times> 'w HandlerFunc)" where
  "dispatch pb rt data =
     (case unmarshal_request pb data of
        Inl err \<Rightarrow> Inl (error_response [] 400 (''invalid request: '' @ err))
      | Inr req \<Rightarrow>
          (case Route rt (Service req) (Method req) of
             None \<Rightarrow> Inl (error_response (RequestId req) 404
                       (''method not found: '' @ Service req @ ''.'' @ Method req))
           | Some h \<Rightarrow> Inr (req, h)))"

text \<open>The response to a handler's result; a panic is recovered and answered by nothing.\<close>

fun handler_response :: "RpcRequest \<Rightarrow> handler_result \<Rightarrow> RpcResponse option" where
  "handler_response req (Reply p) =
     Some \<lparr>RespRequestId = RequestId req, RespPayload = p, RespError = None\<rparr>"
| "handler_response req (Fail m) =
     Some \<lparr>RespRequestId = RequestId req, RespPayload = [],
           RespError = Some \<lparr>Code = 500, Message = m\<rparr>\<rparr>"
| "handler_response req (Panic m) = None"

section \<open>The goroutines of a connection\<close>

datatype 'w goroutine =
    Reading
  | Handling RpcRequest "'w HandlerFunc"
  | WantLock RpcResponse "bytes option"
  | Header RpcResponse bytes
  | Body RpcResponse bytes
  | Unlocking
  | Finished

text \<open>
  The last three fields record the history, for the theorems only: the frames read so far, the
  responses written completely and those whose writing failed, with the goroutine that wrote them.
\<close>

record 'w conn_state =
  inp :: reader
  out :: writer
  writeMu :: "nat option"
  goroutines :: "'w goroutine list"
  world :: 'w
  received :: "bytes list"
  answered :: "(nat \<times> RpcResponse \<times> bytes) list"
  failed :: "(nat \<times> RpcResponse \<times> bytes) list"

text \<open>An accepted connection: what the peer will have sent (\<open>r\<close>), and how many bytes it takes before a
  write fails (\<open>rm\<close>; \<open>None\<close> when it takes all).\<close>

definition accept_conn :: "reader \<Rightarrow> nat option \<Rightarrow> 'w \<Rightarrow> 'w conn_state" where
  "accept_conn r rm w = \<lparr>inp = r, out = \<lparr>sent = [], room = rm, closed = False\<rparr>, writeMu = None,
     goroutines = [Reading], world = w, received = [], answered = [], failed = []\<rparr>"

definition set_pc :: "nat \<Rightarrow> 'w goroutine \<Rightarrow> 'w conn_state \<Rightarrow> 'w conn_state" where
  "set_pc i g s = s\<lparr>goroutines := (goroutines s)[i := g]\<rparr>"

text \<open>One iteration of the read loop, up to the start of a goroutine or of \<open>writeError\<close>.\<close>

definition read_step :: "rpc_pb \<Rightarrow> 'w HandlerFunc Router \<Rightarrow> nat \<Rightarrow> 'w conn_state \<Rightarrow> 'w conn_state option" where
  "read_step pb rt i s =
     (case ReadFrame conn_read (inp s) of
        None \<Rightarrow> None
      | Some (Inl e, r) \<Rightarrow> Some (set_pc i Finished (s\<lparr>inp := r, out := (out s)\<lparr>closed := True\<rparr>\<rparr>))
      | Some (Inr data, r) \<Rightarrow>
          (let s1 = s\<lparr>inp := r, received := received s @ [data]\<rparr> in
           case dispatch pb rt data of
             Inl resp \<Rightarrow>
               Some (set_pc i (WantLock resp
                 (case marshal_response pb resp of Inl _ \<Rightarrow> None | Inr d \<Rightarrow> Some d)) s1)
           | Inr (req, h) \<Rightarrow> Some (s1\<lparr>goroutines := goroutines s1 @ [Handling req h]\<rparr>)))"

definition handle_step :: "rpc_pb \<Rightarrow> nat \<Rightarrow> RpcRequest \<Rightarrow> 'w HandlerFunc \<Rightarrow> 'w conn_state \<Rightarrow> 'w conn_state" where
  "handle_step pb i req h s =
     (let (res, w) = h (Payload req) (world s); s1 = s\<lparr>world := w\<rparr> in
      case handler_response req res of
        None \<Rightarrow> set_pc i Finished s1
      | Some resp \<Rightarrow>
          (case marshal_response pb resp of
             Inl _ \<Rightarrow> set_pc i Finished s1
           | Inr d \<Rightarrow> set_pc i (WantLock resp (Some d)) s1))"

fun lock_step :: "nat \<Rightarrow> RpcResponse \<Rightarrow> bytes option \<Rightarrow> 'w conn_state \<Rightarrow> 'w conn_state option" where
  "lock_step i resp d s =
     (if writeMu s = None
      then Some (set_pc i (case d of None \<Rightarrow> Unlocking | Some d \<Rightarrow> Header resp d) (s\<lparr>writeMu := Some i\<rparr>))
      else None)"

definition header_step :: "nat \<Rightarrow> RpcResponse \<Rightarrow> bytes \<Rightarrow> 'w conn_state \<Rightarrow> 'w conn_state" where
  "header_step i resp d s =
     (case conn_write (frame_header d) (out s) of
        (None, w) \<Rightarrow> set_pc i (Body resp d) (s\<lparr>out := w\<rparr>)
      | (Some e, w) \<Rightarrow> set_pc i Unlocking (s\<lparr>out := w, failed := failed s @ [(i, resp, d)]\<rparr>))"

definition body_step :: "nat \<Rightarrow> RpcResponse \<Rightarrow> bytes \<Rightarrow> 'w conn_state \<Rightarrow> 'w conn_state" where
  "body_step i resp d s =
     (case conn_write d (out s) of
        (None, w) \<Rightarrow> set_pc i Unlocking (s\<lparr>out := w, answered := answered s @ [(i, resp, d)]\<rparr>)
      | (Some e, w) \<Rightarrow> set_pc i Unlocking (s\<lparr>out := w, failed := failed s @ [(i, resp, d)]\<rparr>))"

definition unlock_step :: "nat \<Rightarrow> 'w conn_state \<Rightarrow> 'w conn_state" where
  "unlock_step i s = set_pc i (if i = 0 then Reading else Finished) (s\<lparr>writeMu := None\<rparr>)"

definition goroutine_step ::
    "rpc_pb \<Rightarrow> 'w HandlerFunc Router \<Rightarrow> nat \<Rightarrow> 'w conn_state \<Rightarrow> 'w conn_state option" where
  "goroutine_step pb rt i s =
     (if i < length (goroutines s) then
        (case goroutines s ! i of
           Reading \<Rightarrow> read_step pb rt i s
         | Handling req h \<Rightarrow> Some (handle_step pb i req h s)
         | WantLock resp d \<Rightarrow> lock_step i resp d s
         | Header resp d \<Rightarrow> Some (header_step i resp d s)
         | Body resp d \<Rightarrow> Some (body_step i resp d s)
         | Unlocking \<Rightarrow> Some (unlock_step i s)
         | Finished \<Rightarrow> None)
      else None)"

text \<open>A run follows a schedule: the goroutines in the order they are chosen.\<close>

fun run_schedule ::
    "rpc_pb \<Rightarrow> 'w HandlerFunc Router \<Rightarrow> nat list \<Rightarrow> 'w conn_state \<Rightarrow> 'w conn_state option" where
  "run_schedule pb rt [] s = Some s"
| "run_schedule pb rt (i # is) s =
     (case goroutine_step pb rt i s of None \<Rightarrow> None | Some s' \<Rightarrow> run_schedule pb rt is s')"

inductive conn_step :: "rpc_pb \<Rightarrow> 'w HandlerFunc Router \<Rightarrow> 'w conn_state \<Rightarrow> 'w conn_state \<Rightarrow> bool"
  for pb rt where
  step: "goroutine_step pb rt i s = Some s' \<Longrightarrow> conn_step pb rt s s'"

abbreviation conn_reach :: "rpc_pb \<Rightarrow> 'w HandlerFunc Router \<Rightarrow> 'w conn_state \<Rightarrow> 'w conn_state \<Rightarrow> bool" where
  "conn_reach pb rt \<equiv> (conn_step pb rt)\<^sup>*\<^sup>*"

definition quiescent :: "rpc_pb \<Rightarrow> 'w HandlerFunc Router \<Rightarrow> 'w conn_state \<Rightarrow> bool" where
  "quiescent pb rt s \<longleftrightarrow> (\<forall>i < length (goroutines s). goroutine_step pb rt i s = None)"

section \<open>Invariants\<close>

fun holds_lock :: "'w goroutine \<Rightarrow> bool" where
  "holds_lock (Header _ _) = True"
| "holds_lock (Body _ _) = True"
| "holds_lock Unlocking = True"
| "holds_lock _ = False"

definition mutex_inv :: "'w conn_state \<Rightarrow> bool" where
  "mutex_inv s \<longleftrightarrow>
     (\<forall>i < length (goroutines s). holds_lock (goroutines s ! i) \<longleftrightarrow> writeMu s = Some i) \<and>
     (\<forall>i. writeMu s = Some i \<longrightarrow> i < length (goroutines s))"

definition role_inv :: "'w conn_state \<Rightarrow> bool" where
  "role_inv s \<longleftrightarrow> goroutines s \<noteq> [] \<and> (\<forall>req h. goroutines s ! 0 \<noteq> Handling req h) \<and>
     (\<forall>i < length (goroutines s). goroutines s ! i = Reading \<longrightarrow> i = 0)"

definition wire :: "'w conn_state \<Rightarrow> bytes" where
  "wire s = concat (map (\<lambda>(i, resp, d). encode_frame d) (answered s))"

text \<open>
  The bytes on the wire: complete frames, then nothing, the header of the frame being written, or
  what a failing connection has left of a frame.
\<close>

definition wire_inv :: "'w conn_state \<Rightarrow> bool" where
  "wire_inv s \<longleftrightarrow> (\<exists>q. sent (out s) = wire s @ q \<and>
     ((\<exists>resp d. Body resp d \<in> set (goroutines s) \<and> q = frame_header d) \<or>
      (\<forall>resp d. Body resp d \<notin> set (goroutines s)) \<and>
      (q = [] \<or> (closed (out s) \<or> room (out s) = Some 0) \<and> (\<exists>(i, resp, d)\<in>set (failed s). prefix q (encode_frame d)))))"

text \<open>
  Accounting. \<open>routed\<close> are the requests of the frames read that reach a handler (number \<open>k\<close> is
  served by goroutine \<open>k + 1\<close>), \<open>rejected\<close> the responses the read loop owes itself, and
  \<open>answers_of\<close> the responses a goroutine has written.
\<close>

definition routed :: "rpc_pb \<Rightarrow> 'w HandlerFunc Router \<Rightarrow> bytes list \<Rightarrow> (RpcRequest \<times> 'w HandlerFunc) list" where
  "routed pb rt ds = concat (map (\<lambda>d. case dispatch pb rt d of Inl _ \<Rightarrow> [] | Inr p \<Rightarrow> [p]) ds)"

definition rejected :: "rpc_pb \<Rightarrow> 'w HandlerFunc Router \<Rightarrow> bytes list \<Rightarrow> RpcResponse list" where
  "rejected pb rt ds = concat (map (\<lambda>d. case dispatch pb rt d of Inl resp \<Rightarrow> [resp] | Inr _ \<Rightarrow> []) ds)"

definition answers_of :: "'w conn_state \<Rightarrow> nat \<Rightarrow> RpcResponse list" where
  "answers_of s i = map (\<lambda>(j, resp, d). resp) (filter (\<lambda>(j, resp, d). j = i) (answered s))"

definition reply_to :: "RpcRequest \<Rightarrow> 'w HandlerFunc \<Rightarrow> RpcResponse \<Rightarrow> bool" where
  "reply_to req h resp \<longleftrightarrow> (\<exists>w. handler_response req (fst (h (Payload req) w)) = Some resp)"

text \<open>A response goroutine \<open>i\<close> has to write: one of the read loop's own, or a result of the handler.\<close>

definition owed :: "rpc_pb \<Rightarrow> 'w HandlerFunc Router \<Rightarrow> bytes list \<Rightarrow> nat \<Rightarrow> RpcResponse \<Rightarrow> bool" where
  "owed pb rt ds i resp \<longleftrightarrow>
     (case i of
        0 \<Rightarrow> resp \<in> set (rejected pb rt ds)
      | Suc k \<Rightarrow> k < length (routed pb rt ds) \<and>
          reply_to (fst (routed pb rt ds ! k)) (snd (routed pb rt ds ! k)) resp)"

definition failed_inv :: "rpc_pb \<Rightarrow> 'w HandlerFunc Router \<Rightarrow> 'w conn_state \<Rightarrow> bool" where
  "failed_inv pb rt s \<longleftrightarrow> (\<forall>(i, resp, d)\<in>set (failed s).
     marshal_response pb resp = Inr d \<and> owed pb rt (received s) i resp)"

text \<open>Every response that arises can be marshalled, and no handler panics.\<close>

definition total_replies :: "rpc_pb \<Rightarrow> 'w HandlerFunc Router \<Rightarrow> bool" where
  "total_replies pb rt \<longleftrightarrow>
     (\<forall>d resp. dispatch pb rt d = Inl resp \<longrightarrow> (\<exists>b. marshal_response pb resp = Inr b)) \<and>
     (\<forall>d req h w. dispatch pb rt d = Inr (req, h) \<longrightarrow>
        (\<exists>resp b. handler_response req (fst (h (Payload req) w)) = Some resp \<and>
           marshal_response pb resp = Inr b))"

definition reliable :: "writer \<Rightarrow> bool" where
  "reliable w \<longleftrightarrow> room w = None \<and> \<not> closed w"

text \<open>
  What a goroutine for request \<open>(req, h)\<close> may have written, by where it is; \<open>rel\<close> says that
  nothing fails, so that a goroutine past its write has written.
\<close>

fun worker_ok :: "bool \<Rightarrow> RpcRequest \<times> 'w HandlerFunc \<Rightarrow> 'w goroutine \<Rightarrow> RpcResponse list \<Rightarrow> bool" where
  "worker_ok rel (req, h) Reading rs \<longleftrightarrow> False"
| "worker_ok rel (req, h) (Handling req' h') rs \<longleftrightarrow> req' = req \<and> h' = h \<and> rs = []"
| "worker_ok rel (req, h) (WantLock resp d) rs \<longleftrightarrow> reply_to req h resp \<and> d \<noteq> None \<and> rs = []"
| "worker_ok rel (req, h) (Header resp d) rs \<longleftrightarrow> reply_to req h resp \<and> rs = []"
| "worker_ok rel (req, h) (Body resp d) rs \<longleftrightarrow> reply_to req h resp \<and> rs = []"
| "worker_ok rel (req, h) g rs \<longleftrightarrow> (rs = [] \<and> \<not> rel \<or> (\<exists>resp. rs = [resp] \<and> reply_to req h resp))"

fun in_progress :: "'w goroutine \<Rightarrow> RpcResponse list" where
  "in_progress (WantLock resp d) = [resp]"
| "in_progress (Header resp d) = [resp]"
| "in_progress (Body resp d) = [resp]"
| "in_progress _ = []"

definition main_ok :: "bool \<Rightarrow> RpcResponse list \<Rightarrow> 'w goroutine \<Rightarrow> RpcResponse list \<Rightarrow> bool" where
  "main_ok rel rej g rs \<longleftrightarrow>
     (\<exists>rs'. rej = rs' @ in_progress g \<and> subseq rs rs' \<and> (rel \<longrightarrow> rs = rs' \<and> (\<forall>r. g \<noteq> WantLock r None)))"

definition goroutine_ok ::
    "rpc_pb \<Rightarrow> 'w HandlerFunc Router \<Rightarrow> bool \<Rightarrow> bytes list \<Rightarrow> nat \<Rightarrow> 'w goroutine \<Rightarrow> RpcResponse list \<Rightarrow> bool" where
  "goroutine_ok pb rt rel ds i g rs \<longleftrightarrow>
     (case i of
        0 \<Rightarrow> main_ok rel (rejected pb rt ds) g rs
      | Suc k \<Rightarrow> k < length (routed pb rt ds) \<and> worker_ok rel (routed pb rt ds ! k) g rs)"

definition marshalled :: "rpc_pb \<Rightarrow> 'w goroutine \<Rightarrow> bool" where
  "marshalled pb g \<longleftrightarrow> (\<forall>resp d. g \<in> {WantLock resp (Some d), Header resp d, Body resp d} \<longrightarrow>
     marshal_response pb resp = Inr d)"

definition account_inv :: "rpc_pb \<Rightarrow> 'w HandlerFunc Router \<Rightarrow> bool \<Rightarrow> 'w conn_state \<Rightarrow> bool" where
  "account_inv pb rt rel s \<longleftrightarrow>
     length (goroutines s) = Suc (length (routed pb rt (received s))) \<and>
     (\<forall>i < length (goroutines s).
        goroutine_ok pb rt rel (received s) i (goroutines s ! i) (answers_of s i) \<and>
        marshalled pb (goroutines s ! i)) \<and>
     (\<forall>(i, resp, d) \<in> set (answered s). i < length (goroutines s) \<and> marshal_response pb resp = Inr d)"

section \<open>Steps\<close>

lemma set_pc_sel [simp]:
  "inp (set_pc i g s) = inp s" "out (set_pc i g s) = out s" "writeMu (set_pc i g s) = writeMu s"
  "goroutines (set_pc i g s) = (goroutines s)[i := g]" "world (set_pc i g s) = world s"
  "received (set_pc i g s) = received s" "answered (set_pc i g s) = answered s" "failed (set_pc i g s) = failed s"
  by (simp_all add: set_pc_def)

lemma wire_set_pc [simp]: "wire (set_pc i g s) = wire s"
  by (simp add: wire_def)

text \<open>The ways a goroutine can step, one per path through the code.\<close>

lemma goroutine_stepE:
  assumes "goroutine_step pb rt i s = Some s'"
  obtains
    (read_error) e r where "goroutines s ! i = Reading" "ReadFrame conn_read (inp s) = Some (Inl e, r)"
      "s' = set_pc i Finished (s\<lparr>inp := r, out := (out s)\<lparr>closed := True\<rparr>\<rparr>)"
  | (reject) data r resp where "goroutines s ! i = Reading"
      "ReadFrame conn_read (inp s) = Some (Inr data, r)" "dispatch pb rt data = Inl resp"
      "s' = set_pc i (WantLock resp (case marshal_response pb resp of Inl _ \<Rightarrow> None | Inr d \<Rightarrow> Some d))
        (s\<lparr>inp := r, received := received s @ [data]\<rparr>)"
  | (spawn) data r req h where "goroutines s ! i = Reading"
      "ReadFrame conn_read (inp s) = Some (Inr data, r)" "dispatch pb rt data = Inr (req, h)"
      "s' = s\<lparr>inp := r, received := received s @ [data], goroutines := goroutines s @ [Handling req h]\<rparr>"
  | (no_reply) req h where "goroutines s ! i = Handling req h"
      "handler_response req (fst (h (Payload req) (world s))) = None \<or>
       (\<exists>resp x. handler_response req (fst (h (Payload req) (world s))) = Some resp \<and>
          marshal_response pb resp = Inl x)"
      "s' = set_pc i Finished (s\<lparr>world := snd (h (Payload req) (world s))\<rparr>)"
  | (reply) req h resp d where "goroutines s ! i = Handling req h"
      "handler_response req (fst (h (Payload req) (world s))) = Some resp"
      "marshal_response pb resp = Inr d"
      "s' = set_pc i (WantLock resp (Some d)) (s\<lparr>world := snd (h (Payload req) (world s))\<rparr>)"
  | (lock) resp d where "goroutines s ! i = WantLock resp (Some d)" "writeMu s = None"
      "s' = set_pc i (Header resp d) (s\<lparr>writeMu := Some i\<rparr>)"
  | (lock_skip) resp where "goroutines s ! i = WantLock resp None" "writeMu s = None"
      "s' = set_pc i Unlocking (s\<lparr>writeMu := Some i\<rparr>)"
  | (header) resp d w where "goroutines s ! i = Header resp d"
      "conn_write (frame_header d) (out s) = (None, w)" "s' = set_pc i (Body resp d) (s\<lparr>out := w\<rparr>)"
  | (header_fail) resp d w e where "goroutines s ! i = Header resp d"
      "conn_write (frame_header d) (out s) = (Some e, w)"
      "s' = set_pc i Unlocking (s\<lparr>out := w, failed := failed s @ [(i, resp, d)]\<rparr>)"
  | (body) resp d w where "goroutines s ! i = Body resp d"
      "conn_write d (out s) = (None, w)"
      "s' = set_pc i Unlocking (s\<lparr>out := w, answered := answered s @ [(i, resp, d)]\<rparr>)"
  | (body_fail) resp d w e where "goroutines s ! i = Body resp d"
      "conn_write d (out s) = (Some e, w)"
      "s' = set_pc i Unlocking (s\<lparr>out := w, failed := failed s @ [(i, resp, d)]\<rparr>)"
  | (unlock) "goroutines s ! i = Unlocking"
      "s' = set_pc i (if i = 0 then Reading else Finished) (s\<lparr>writeMu := None\<rparr>)"
proof (cases "goroutines s ! i")
  case Reading
  with assms read_error reject spawn show ?thesis
    by (auto simp: goroutine_step_def read_step_def Let_def split: option.splits sum.splits prod.splits if_splits)
next
  case (Handling req h)
  with assms no_reply reply show ?thesis
    by (auto simp: goroutine_step_def handle_step_def split_beta Let_def split: option.splits sum.splits if_splits)
next
  case (WantLock resp d)
  with assms lock lock_skip show ?thesis
    by (cases d) (auto simp: goroutine_step_def split: if_splits)
next
  case (Header resp d)
  with assms header header_fail show ?thesis
    by (auto simp: goroutine_step_def header_step_def split: option.splits prod.splits if_splits)
next
  case (Body resp d)
  with assms body body_fail show ?thesis
    by (auto simp: goroutine_step_def body_step_def split: option.splits prod.splits if_splits)
next
  case Unlocking
  with assms unlock show ?thesis by (auto simp: goroutine_step_def unlock_step_def split: if_splits)
next
  case Finished
  with assms show ?thesis by (auto simp: goroutine_step_def split: if_splits)
qed

lemma goroutine_step_index: "goroutine_step pb rt i s = Some s' \<Longrightarrow> i < length (goroutines s)"
  by (auto simp: goroutine_step_def split: if_splits)

inductive_cases conn_stepE: "conn_step pb rt s s'"

lemma mutex_step:
  assumes "mutex_inv s" "conn_step pb rt s s'"
  shows "mutex_inv s'"
proof -
  from assms(2) obtain i where st: "goroutine_step pb rt i s = Some s'" by (rule conn_stepE)
  from st goroutine_step_index [OF st] assms(1) show ?thesis
    by (elim goroutine_stepE) (auto simp: mutex_inv_def nth_list_update nth_append split: if_splits)
qed

lemma role_step:
  assumes "role_inv s" "conn_step pb rt s s'"
  shows "role_inv s'"
proof -
  from assms(2) obtain i where st: "goroutine_step pb rt i s = Some s'" by (rule conn_stepE)
  from st goroutine_step_index [OF st] assms(1) show ?thesis
    by (elim goroutine_stepE) (auto simp: role_inv_def nth_list_update nth_append split: if_splits)
qed

text \<open>Steps that neither write nor enter or leave \<open>Body\<close> leave the wire as it is.\<close>

lemma wire_inv_frame:
  assumes "wire_inv s" "sent (out s') = sent (out s)" "answered s' = answered s" "failed s' = failed s"
    and "closed (out s) \<or> room (out s) = Some 0 \<Longrightarrow> closed (out s') \<or> room (out s') = Some 0"
    and "\<And>resp d. Body resp d \<in> set (goroutines s') \<longleftrightarrow> Body resp d \<in> set (goroutines s)"
  shows "wire_inv s'"
  using assms(1-5) assms(6)
  unfolding wire_inv_def wire_def by auto

lemma Body_set_pc:
  assumes "i < length gs" "\<And>resp d. gs ! i \<noteq> Body resp d" "\<And>resp d. g \<noteq> Body resp d"
  shows "Body resp d \<in> set (gs[i := g]) \<longleftrightarrow> Body resp d \<in> set gs"
  using assms by (auto simp: in_set_conv_nth nth_list_update split: if_splits) (metis nth_list_update)

lemma only_holder:
  assumes "mutex_inv s" "i < length (goroutines s)" "holds_lock (goroutines s ! i)"
  shows "Body resp d \<in> set (goroutines s) \<longleftrightarrow> goroutines s ! i = Body resp d"
    and "\<not> holds_lock g \<or> g = Unlocking \<Longrightarrow> Body resp d \<notin> set ((goroutines s)[i := g])"
    and "Body resp d \<in> set ((goroutines s)[i := Body resp' d']) \<longleftrightarrow> resp = resp' \<and> d = d'"
proof -
  have only: "j = i" if "j < length (goroutines s)" "goroutines s ! j = Body r b" for j r b
    using assms that unfolding mutex_inv_def by (metis holds_lock.simps(2) option.inject)
  show "Body resp d \<in> set (goroutines s) \<longleftrightarrow> goroutines s ! i = Body resp d"
    using only assms(2) by (metis in_set_conv_nth)
  show "Body resp d \<notin> set ((goroutines s)[i := g])" if "\<not> holds_lock g \<or> g = Unlocking"
    using only that assms(2) by (auto simp: in_set_conv_nth nth_list_update split: if_splits)
  show "Body resp d \<in> set ((goroutines s)[i := Body resp' d']) \<longleftrightarrow> resp = resp' \<and> d = d'"
    using only assms(2) by (auto simp: in_set_conv_nth nth_list_update split: if_splits)
qed

lemma header_write:
  assumes "wire_inv s" "mutex_inv s" "i < length (goroutines s)" "goroutines s ! i = Header resp d"
    and "conn_write (frame_header d) (out s) = (e, w)"
  shows "wire_inv (set_pc i (if e = None then Body resp d else Unlocking)
    (s\<lparr>out := w, failed := failed s @ (if e = None then [] else [(i, resp, d)])\<rparr>))"
proof -
  from only_holder [OF assms(2,3)] assms(1,4)
  obtain q where q: "sent (out s) = wire s @ q"
    "q = [] \<or> (closed (out s) \<or> room (out s) = Some 0) \<and> (\<exists>(i, resp, d)\<in>set (failed s). prefix q (encode_frame d))"
    by (auto simp: wire_inv_def)
  have cut: "prefix (take k (frame_header d)) (encode_frame d)" for k
    by (metis encode_frame_def prefix_prefix take_is_prefix)
  have len: "length (frame_header d) = 4" by simp
  show ?thesis
  proof (cases e)
    case None
    with q assms(5) len have "q = []" "sent w = wire s @ frame_header d"
      by (auto simp: conn_write_def split: option.splits if_splits)
    with None only_holder(3) [OF assms(2,3)] assms(4) show ?thesis by (auto simp: wire_inv_def wire_def)
  next
    case (Some x)
    have no: "Body resp' d' \<notin> set ((goroutines s)[i := Unlocking])" for resp' d'
      using only_holder(2) [OF assms(2,3), of Unlocking] assms(4) by simp
    have dead: "closed w \<or> room w = Some 0"
      using Some assms(5) by (auto simp: conn_write_def split: option.splits if_splits)
    have "\<exists>q'. sent w = wire s @ q' \<and>
        (q' = [] \<or> (\<exists>(i, resp, d)\<in>set (failed s @ [(i, resp, d)]). prefix q' (encode_frame d)))"
    proof (cases "q = []")
      case True
      have "\<exists>k. sent w = sent (out s) @ take k (frame_header d)"
        using Some assms(5) by (auto simp: conn_write_def split: option.splits if_splits intro: exI [of _ 0])
      with True q(1) cut show ?thesis by auto
    next
      case False
      with q have "closed (out s) \<or> room (out s) = Some 0" by simp
      then have "sent w = sent (out s)"
        using Some assms(5) by (auto simp: conn_write_def split: if_splits)
      with q False show ?thesis by auto
    qed
    with no dead Some show ?thesis by (auto simp: wire_inv_def wire_def)
  qed
qed

lemma body_write:
  assumes "wire_inv s" "mutex_inv s" "i < length (goroutines s)" "goroutines s ! i = Body resp d"
    and "conn_write d (out s) = (e, w)"
  shows "wire_inv (set_pc i Unlocking
    (s\<lparr>out := w, answered := answered s @ (if e = None then [(i, resp, d)] else []),
       failed := failed s @ (if e = None then [] else [(i, resp, d)])\<rparr>))"
proof -
  from only_holder(1) [OF assms(2,3)] assms(1,4)
  have q: "sent (out s) = wire s @ frame_header d" by (auto simp: wire_inv_def)
  have no: "Body resp' d' \<notin> set ((goroutines s)[i := Unlocking])" for resp' d'
    using only_holder(2) [OF assms(2,3), of Unlocking] assms(4) by simp
  show ?thesis
  proof (cases e)
    case None
    with q assms(5) have "sent w = wire s @ encode_frame d"
      by (auto simp: conn_write_def encode_frame_def split: option.splits if_splits)
    with None no show ?thesis by (auto simp: wire_inv_def wire_def)
  next
    case (Some x)
    have "\<exists>k. sent w = sent (out s) @ take k d"
      using Some assms(5) by (auto simp: conn_write_def split: option.splits if_splits intro: exI [of _ 0])
    then obtain k where k: "sent w = wire s @ frame_header d @ take k d" using q by auto
    have dead: "closed w \<or> room w = Some 0"
      using Some assms(5) by (auto simp: conn_write_def split: option.splits if_splits)
    have "prefix (frame_header d @ take k d) (encode_frame d)" by (simp add: encode_frame_def take_is_prefix)
    with k dead no Some show ?thesis
      unfolding wire_inv_def wire_def by (intro exI [of _ "frame_header d @ take k d"]) auto
  qed
qed

lemma wire_step:
  assumes "wire_inv s" "mutex_inv s" "conn_step pb rt s s'"
  shows "wire_inv s'"
proof -
  from assms(3) obtain i where st: "goroutine_step pb rt i s = Some s'" by (rule conn_stepE)
  note lt = goroutine_step_index [OF st]
  note frame = wire_inv_frame [OF assms(1)]
  from st show ?thesis
  proof (cases rule: goroutine_stepE)
    case (header resp d w)
    with header_write [OF assms(1,2) lt, of resp d None w] show ?thesis by simp
  next
    case (header_fail resp d w e)
    with header_write [OF assms(1,2) lt, of resp d "Some e" w] show ?thesis by simp
  next
    case (body resp d w)
    with body_write [OF assms(1,2) lt, of resp d None w] show ?thesis by simp
  next
    case (body_fail resp d w e)
    with body_write [OF assms(1,2) lt, of resp d "Some e" w] show ?thesis by simp
  qed (use lt in \<open>auto intro!: frame simp: Body_set_pc split: if_splits\<close>)
qed

section \<open>Accounting\<close>

lemma routed_simps [simp]:
  "routed pb rt [] = []"
  "routed pb rt (ds @ [d]) = routed pb rt ds @ (case dispatch pb rt d of Inl _ \<Rightarrow> [] | Inr p \<Rightarrow> [p])"
  by (simp_all add: routed_def)

lemma rejected_simps [simp]:
  "rejected pb rt [] = []"
  "rejected pb rt (ds @ [d]) = rejected pb rt ds @ (case dispatch pb rt d of Inl r \<Rightarrow> [r] | Inr _ \<Rightarrow> [])"
  by (simp_all add: rejected_def)

lemma answers_of_append:
  "answered s' = answered s @ [(i, resp, d)] \<Longrightarrow>
   answers_of s' j = answers_of s j @ (if j = i then [resp] else [])"
  by (simp add: answers_of_def)

lemma answers_of_cong: "answered s' = answered s \<Longrightarrow> answers_of s' = answers_of s"
  by (simp add: answers_of_def fun_eq_iff)

lemma goroutine_ok_simps [simp]:
  "goroutine_ok pb rt rel ds 0 g rs \<longleftrightarrow> main_ok rel (rejected pb rt ds) g rs"
  "goroutine_ok pb rt rel ds (Suc k) g rs \<longleftrightarrow>
     k < length (routed pb rt ds) \<and> worker_ok rel (routed pb rt ds ! k) g rs"
  by (simp_all add: goroutine_ok_def)

lemma account_at:
  "account_inv pb rt rel s \<Longrightarrow> i < length (goroutines s) \<Longrightarrow>
     goroutine_ok pb rt rel (received s) i (goroutines s ! i) (answers_of s i)"
  by (simp add: account_inv_def)

lemma account_local:
  assumes "account_inv pb rt rel s" "i < length (goroutines s)"
    and "goroutines s' = (goroutines s)[i := g]" "received s' = received s"
    and "answered s' = answered s @ map (\<lambda>(resp, d). (i, resp, d)) new" "length new \<le> 1"
    and "goroutine_ok pb rt rel (received s) i (goroutines s ! i) (answers_of s i) \<Longrightarrow>
      goroutine_ok pb rt rel (received s) i g (answers_of s i @ map fst new)"
    and "marshalled pb g" "\<forall>(resp, d) \<in> set new. marshal_response pb resp = Inr d"
  shows "account_inv pb rt rel s'"
proof -
  have ans: "answers_of s' j = answers_of s j @ (if j = i then map fst new else [])" for j
    using assms(5,6) by (cases new) (auto simp: answers_of_def)
  with assms(1-5,7-9) show ?thesis
    by (auto simp: account_inv_def nth_list_update)
qed

lemma goroutine_ok_more:
  assumes "goroutine_ok pb rt rel ds (Suc k) g rs"
  shows "goroutine_ok pb rt rel (ds @ [d]) (Suc k) g rs"
  using assms by (auto simp: goroutine_ok_def nth_append)

lemma goroutine_ok_mono:
  assumes "goroutine_ok pb rt rel ds i g rs"
    and "\<And>rej. i = 0 \<Longrightarrow> main_ok rel rej g rs \<Longrightarrow> main_ok rel rej g' rs'"
    and "\<And>req h. 0 < i \<Longrightarrow> worker_ok rel (req, h) g rs \<Longrightarrow> worker_ok rel (req, h) g' rs'"
  shows "goroutine_ok pb rt rel ds i g' rs'"
  using assms by (cases i) (auto simp: goroutine_ok_def, metis prod.collapse)

lemma reliable_write: "reliable w \<Longrightarrow> conn_write p w = (e, w') \<Longrightarrow> e = None"
  by (auto simp: reliable_def conn_write_def)

lemma account_reject:
  assumes "account_inv pb rt rel s" "0 < length (goroutines s)" "goroutines s ! 0 = Reading"
    and "dispatch pb rt data = Inl resp" "rel \<Longrightarrow> total_replies pb rt"
  shows "account_inv pb rt rel
    (set_pc 0 (WantLock resp (case marshal_response pb resp of Inl _ \<Rightarrow> None | Inr d \<Rightarrow> Some d))
      (s\<lparr>inp := r, received := received s @ [data]\<rparr>))" (is "account_inv pb rt rel ?s'")
proof -
  let ?g = "WantLock resp (case marshal_response pb resp of Inl _ \<Rightarrow> None | Inr d \<Rightarrow> Some d)"
  have "main_ok rel (rejected pb rt (received s)) (goroutines s ! 0) (answers_of s 0)"
    using account_at [OF assms(1,2)] by simp
  moreover have "rel \<Longrightarrow> \<exists>b. marshal_response pb resp = Inr b"
    using assms(4,5) by (auto simp: total_replies_def)
  ultimately have main: "goroutine_ok pb rt rel (received s @ [data]) 0 ?g (answers_of s 0)"
    using assms(3,4) by (auto simp: main_ok_def)
  have "goroutine_ok pb rt rel (received s @ [data]) i (goroutines s ! i) (answers_of s i)"
    if "0 < i" "i < length (goroutines s)" for i
    using that assms(1) goroutine_ok_more [of pb rt rel "received s" "i - 1"] by (simp add: account_inv_def)
  moreover have "marshalled pb ?g" by (auto simp: marshalled_def split: sum.splits)
  moreover have "answers_of ?s' = answers_of s" by (rule answers_of_cong) simp
  ultimately show ?thesis
    using assms(1,4) main by (auto simp: account_inv_def nth_list_update)
qed

lemma account_spawn:
  assumes "account_inv pb rt rel s" "goroutines s ! 0 = Reading" "dispatch pb rt data = Inr (req, h)"
  shows "account_inv pb rt rel
    (s\<lparr>inp := r, received := received s @ [data], goroutines := goroutines s @ [Handling req h]\<rparr>)"
    (is "account_inv pb rt rel ?s'")
proof -
  let ?n = "length (goroutines s)"
  have ans: "answers_of ?s' = answers_of s" by (rule answers_of_cong) simp
  have fresh: "answers_of s ?n = []"
    using assms(1) by (auto simp: account_inv_def answers_of_def filter_empty_conv)
  have old: "goroutine_ok pb rt rel (received s @ [data]) i (goroutines s ! i) (answers_of s i)"
    if "i < ?n" for i
  proof (cases i)
    case 0
    with that account_at [OF assms(1), of 0] assms(2,3) show ?thesis by simp
  next
    case (Suc k)
    with that account_at [OF assms(1), of i] goroutine_ok_more show ?thesis by blast
  qed
  have "goroutine_ok pb rt rel (received s @ [data]) ?n (Handling req h) []"
    using assms(1,3) by (simp add: account_inv_def goroutine_ok_def)
  then show ?thesis
    using assms(1,3) old fresh ans
    by (auto simp: account_inv_def nth_append marshalled_def less_Suc_eq)
qed

lemma handling_routed:
  assumes "account_inv pb rt rel s" "i < length (goroutines s)" "goroutines s ! i = Handling req h" "0 < i"
  obtains d where "dispatch pb rt d = Inr (req, h)"
proof -
  from assms(4) obtain k where k: "i = Suc k" by (cases i) auto
  obtain p where "routed pb rt (received s) ! k = p" by simp
  with account_at [OF assms(1,2)] assms(3) k
  have "k < length (routed pb rt (received s))" "routed pb rt (received s) ! k = (req, h)"
    by (cases p; simp)+
  then have "(req, h) \<in> set (routed pb rt (received s))" by (metis nth_mem)
  with that show ?thesis by (auto simp: routed_def split: sum.splits)
qed

lemma account_step:
  assumes "account_inv pb rt rel s" "role_inv s" "conn_step pb rt s s'"
    and rel: "rel \<Longrightarrow> total_replies pb rt \<and> reliable (out s)"
  shows "account_inv pb rt rel s'"
proof -
  from assms(3) obtain i where st: "goroutine_step pb rt i s = Some s'" by (rule conn_stepE)
  note lt = goroutine_step_index [OF st]
  note local = account_local [OF assms(1) lt]
  have m: "marshalled pb (goroutines s ! i)" using assms(1) lt by (simp add: account_inv_def)
  from st show ?thesis
  proof (cases rule: goroutine_stepE)
    case (read_error e r)
    with lt assms(2) have "i = 0" by (auto simp: role_inv_def)
    with read_error show ?thesis
      by (intro local [of s' Finished "[]"]) (auto simp: goroutine_ok_def main_ok_def marshalled_def)
  next
    case (reject data r resp)
    with lt assms(2) have "i = 0" by (auto simp: role_inv_def)
    with account_reject [OF assms(1)] reject rel lt show ?thesis by simp
  next
    case (spawn data r req h)
    with lt assms(2) have "i = 0" by (auto simp: role_inv_def)
    with account_spawn [OF assms(1)] spawn lt show ?thesis by simp
  next
    case (no_reply req h)
    with assms(2) have i: "0 < i" by (auto simp: role_inv_def intro: gr0I)
    obtain d where "dispatch pb rt d = Inr (req, h)"
      using handling_routed [OF assms(1) lt no_reply(1) i] .
    then have "\<exists>resp b. handler_response req (fst (h (Payload req) (world s))) = Some resp \<and>
        marshal_response pb resp = Inr b" if rel
      using rel [OF that] unfolding total_replies_def by blast
    with no_reply(2) have "\<not> rel" by auto
    with no_reply i show ?thesis
      by (intro local [of s' Finished "[]"])
        (auto simp: marshalled_def elim!: goroutine_ok_mono)
  next
    case (reply req h resp d)
    with assms(2) have "0 < i" by (auto simp: role_inv_def intro: gr0I)
    with reply show ?thesis
      by (intro local [of s' "WantLock resp (Some d)" "[]"])
        (auto simp: marshalled_def reply_to_def elim!: goroutine_ok_mono)
  next
    case (lock resp d)
    with m show ?thesis
      by (intro local [of s' "Header resp d" "[]"])
        (auto simp: marshalled_def main_ok_def elim!: goroutine_ok_mono)
  next
    case (lock_skip resp)
    then show ?thesis
      by (intro local [of s' Unlocking "[]"])
        (auto simp: marshalled_def main_ok_def subseq_append elim!: goroutine_ok_mono)
  next
    case (header resp d w)
    with m show ?thesis
      by (intro local [of s' "Body resp d" "[]"])
        (auto simp: marshalled_def main_ok_def elim!: goroutine_ok_mono)
  next
    case (header_fail resp d w e)
    with rel reliable_write have "\<not> rel" by blast
    with header_fail show ?thesis
      by (intro local [of s' Unlocking "[]"])
        (auto simp: marshalled_def main_ok_def elim!: goroutine_ok_mono)
  next
    case (body resp d w)
    with m show ?thesis
      by (intro local [of s' Unlocking "[(resp, d)]"])
        (auto simp: marshalled_def main_ok_def elim!: goroutine_ok_mono)
  next
    case (body_fail resp d w e)
    with rel reliable_write have "\<not> rel" by blast
    with body_fail show ?thesis
      by (intro local [of s' Unlocking "[]"])
        (auto simp: marshalled_def main_ok_def elim!: goroutine_ok_mono)
  next
    case unlock
    then show ?thesis
      by (intro local [of s' "if i = 0 then Reading else Finished" "[]"])
        (auto simp: marshalled_def main_ok_def elim!: goroutine_ok_mono)
  qed
qed

text \<open>A response whose writing fails was owed by the goroutine that wrote it.\<close>

lemma owed_more: "owed pb rt ds i resp \<Longrightarrow> owed pb rt (ds @ [d]) i resp"
  by (cases i) (auto simp: owed_def nth_append)

lemma writing_owed:
  assumes "account_inv pb rt rel s" "i < length (goroutines s)"
    and "goroutines s ! i = Header resp d \<or> goroutines s ! i = Body resp d"
  shows "marshal_response pb resp = Inr d \<and> owed pb rt (received s) i resp"
proof
  show "marshal_response pb resp = Inr d"
    using assms by (auto simp: account_inv_def marshalled_def)
  show "owed pb rt (received s) i resp"
  proof (cases i)
    case 0
    with account_at [OF assms(1,2)] assms(3) show ?thesis by (auto simp: owed_def main_ok_def)
  next
    case (Suc k)
    with account_at [OF assms(1,2)] assms(3) show ?thesis
      by (cases "routed pb rt (received s) ! k") (auto simp: owed_def)
  qed
qed

lemma failed_step:
  assumes "failed_inv pb rt s" "account_inv pb rt rel s" "conn_step pb rt s s'"
  shows "failed_inv pb rt s'"
proof -
  from assms(3) obtain i where st: "goroutine_step pb rt i s = Some s'" by (rule conn_stepE)
  note writing = writing_owed [OF assms(2) goroutine_step_index [OF st]]
  from st show ?thesis
    by (cases rule: goroutine_stepE) (use assms(1) writing in \<open>auto simp: failed_inv_def intro: owed_more\<close>)
qed

section \<open>Runs end\<close>

fun weight :: "'w goroutine \<Rightarrow> nat" where
  "weight Finished = 0"
| "weight Reading = 1"
| "weight Unlocking = 2"
| "weight (Body _ _) = 3"
| "weight (Header _ _) = 4"
| "weight (WantLock _ _) = 5"
| "weight (Handling _ _) = 6"

definition conn_rank :: "'w conn_state \<Rightarrow> nat" where
  "conn_rank s = 2 * length (pending (inp s)) + sum_list (map weight (goroutines s))"

lemma ReadFrame_consumes:
  assumes "ReadFrame conn_read r = Some (res, r')"
  shows "length (pending r') \<le> length (pending r)"
    and "res = Inr data \<Longrightarrow> length (pending r') + 4 \<le> length (pending r)"
proof -
  from assms tcp_in.ReadFrame_refines [of r]
  have "frame_spec (pending r) (ending r) = Some (res, pending r')"
    by (auto split: option.splits)
  then show "length (pending r') \<le> length (pending r)"
    and "res = Inr data \<Longrightarrow> length (pending r') + 4 \<le> length (pending r)"
    by (auto dest: frame_spec_consumes)
qed

lemma conn_rank_local:
  assumes "i < length (goroutines s)" "inp s' = inp s" "goroutines s' = (goroutines s)[i := g]"
    and "weight g < weight (goroutines s ! i)"
  shows "conn_rank s' < conn_rank s"
  using assms sum_list_update_nat [of i "goroutines s" weight g] by (simp add: conn_rank_def)

lemma conn_rank_step:
  assumes "conn_step pb rt s s'"
  shows "conn_rank s' < conn_rank s"
proof -
  from assms obtain i where st: "goroutine_step pb rt i s = Some s'" by (rule conn_stepE)
  note lt = goroutine_step_index [OF st]
  note upd = sum_list_update_nat [OF lt, of weight]
  from st show ?thesis
  proof (cases rule: goroutine_stepE)
    case (read_error e r)
    with upd [of Finished] ReadFrame_consumes(1) [of "inp s"] show ?thesis
      by (fastforce simp: conn_rank_def)
  next
    case (reject data r resp)
    with upd [of "WantLock resp (case marshal_response pb resp of Inl _ \<Rightarrow> None | Inr d \<Rightarrow> Some d)"]
      ReadFrame_consumes(2) [of "inp s" "Inr data" r data] show ?thesis
      by (simp add: conn_rank_def)
  next
    case (spawn data r req h)
    with ReadFrame_consumes(2) [of "inp s" "Inr data" r data] show ?thesis
      by (simp add: conn_rank_def)
  qed (auto intro: conn_rank_local [OF lt])
qed

interpretation conn_runs: terminating "conn_step pb rt" conn_rank for pb rt
  by unfold_locales (rule conn_rank_step)

section \<open>The invariants hold in every run\<close>

definition conn_inv :: "rpc_pb \<Rightarrow> 'w HandlerFunc Router \<Rightarrow> 'w conn_state \<Rightarrow> bool" where
  "conn_inv pb rt s \<longleftrightarrow> mutex_inv s \<and> role_inv s \<and> wire_inv s \<and> account_inv pb rt False s \<and> failed_inv pb rt s"

interpretation conn_safe: invariant_of "conn_step pb rt" "conn_inv pb rt" for pb rt
  by unfold_locales (auto simp: conn_inv_def intro: mutex_step role_step wire_step account_step failed_step)

lemma account_start: "account_inv pb rt rel (accept_conn r rm w)"
  by (simp add: account_inv_def accept_conn_def main_ok_def answers_of_def marshalled_def)

lemma conn_inv_start: "conn_inv pb rt (accept_conn r rm w)"
  unfolding conn_inv_def
  by (intro conjI account_start)
    (auto simp: mutex_inv_def role_inv_def wire_inv_def wire_def failed_inv_def accept_conn_def)

lemmas conn_reached = conn_safe.inv_reached [OF _ conn_inv_start]

text \<open>The mutex cannot deadlock: whoever holds it can step.\<close>

lemma quiescent_free:
  assumes "conn_inv pb rt s" "quiescent pb rt s"
  shows "writeMu s = None"
proof (rule ccontr)
  assume "writeMu s \<noteq> None"
  then obtain j where "j < length (goroutines s)" "holds_lock (goroutines s ! j)"
    using assms(1) by (auto simp: conn_inv_def mutex_inv_def)
  with assms(2) show False
    by (cases "goroutines s ! j") (auto simp: quiescent_def goroutine_step_def)
qed

lemma quiescent_goroutines:
  assumes "conn_inv pb rt s" "quiescent pb rt s" "i < length (goroutines s)"
  shows "goroutines s ! i = Finished \<or>
    i = 0 \<and> goroutines s ! i = Reading \<and> ReadFrame conn_read (inp s) = None"
proof -
  have none: "goroutine_step pb rt j s = None" if "j < length (goroutines s)" for j
    using assms(2) that by (simp add: quiescent_def)
  have free: "writeMu s = None" using assms(1,2) by (rule quiescent_free)
  from none [OF assms(3)] assms(3) free show ?thesis
    using assms(1) unfolding conn_inv_def role_inv_def
    by (cases "goroutines s ! i")
      (auto simp: goroutine_step_def read_step_def Let_def split: option.splits sum.splits)
qed

section \<open>A connection that stays up\<close>

text \<open>
  The client has sent the frames \<open>ds\<close> and keeps the connection open. The read loop then never
  fails, so nothing is lost.
\<close>

definition feed_inv :: "bytes list \<Rightarrow> 'w conn_state \<Rightarrow> bool" where
  "feed_inv ds s \<longleftrightarrow> (\<exists>rest. ds = received s @ rest \<and> pending (inp s) = concat (map encode_frame rest)) \<and>
     ending (inp s) = None \<and> (\<forall>d\<in>set ds. length d \<le> max_frame) \<and> reliable (out s) \<and>
     goroutines s ! 0 \<noteq> Finished"

lemma feed_read:
  assumes "feed_inv ds s"
  shows "ReadFrame conn_read (inp s) = None \<and> received s = ds \<or>
    (\<exists>d rest r. ReadFrame conn_read (inp s) = Some (Inr d, r) \<and> ds = received s @ d # rest \<and>
       pending r = concat (map encode_frame rest) \<and> ending r = None)"
proof -
  from assms obtain rest where rest: "ds = received s @ rest"
    "pending (inp s) = concat (map encode_frame rest)" "ending (inp s) = None"
    and small: "\<forall>d\<in>set ds. length d \<le> max_frame" by (auto simp: feed_inv_def)
  show ?thesis
  proof (cases rest)
    case Nil
    with rest tcp_in.ReadFrame_refines [of "inp s"] show ?thesis by (simp add: frame_spec_def)
  next
    case (Cons d ds')
    with rest small tcp_in.ReadFrame_data [of "inp s" d "concat (map encode_frame ds')"] show ?thesis
      by auto
  qed
qed

lemma reliable_after: "reliable w \<Longrightarrow> conn_write p w = (e, w') \<Longrightarrow> reliable w'"
  by (auto simp: reliable_def conn_write_def)

lemma feed_step:
  assumes "feed_inv ds s" "role_inv s" "conn_step pb rt s s'"
  shows "feed_inv ds s'"
proof -
  from assms(3) obtain i where st: "goroutine_step pb rt i s = Some s'" by (rule conn_stepE)
  note lt = goroutine_step_index [OF st]
  from st show ?thesis
  proof (cases rule: goroutine_stepE)
    case (read_error e r)
    with feed_read [OF assms(1)] show ?thesis by auto
  next
    case (reject data r resp)
    with feed_read [OF assms(1)] assms(1) lt show ?thesis
      by (auto simp: feed_inv_def nth_list_update)
  next
    case (spawn data r req h)
    with feed_read [OF assms(1)] assms(1) lt show ?thesis
      by (auto simp: feed_inv_def nth_append)
  next
    case (no_reply req h)
    with assms(2) have "0 < i" by (auto simp: role_inv_def intro: gr0I)
    with no_reply assms(1) show ?thesis by (auto simp: feed_inv_def)
  qed (use lt assms(1) in \<open>auto simp: feed_inv_def nth_list_update intro: reliable_after\<close>)
qed

definition feed_conn_inv :: "rpc_pb \<Rightarrow> 'w HandlerFunc Router \<Rightarrow> bytes list \<Rightarrow> 'w conn_state \<Rightarrow> bool" where
  "feed_conn_inv pb rt ds s \<longleftrightarrow>
     total_replies pb rt \<and> conn_inv pb rt s \<and> account_inv pb rt True s \<and> feed_inv ds s"

interpretation conn_feed: invariant_of "conn_step pb rt" "feed_conn_inv pb rt ds" for pb rt ds
proof unfold_locales
  fix s t assume "feed_conn_inv pb rt ds s" "conn_step pb rt s t"
  then show "feed_conn_inv pb rt ds t"
    using conn_safe.inv_step [of pb rt s t] account_step [of pb rt True s t] feed_step [of ds s pb rt t]
    by (auto simp: feed_conn_inv_def conn_inv_def feed_inv_def)
qed

definition request_id :: "rpc_pb \<Rightarrow> bytes \<Rightarrow> string" where
  "request_id pb d = (case unmarshal_request pb d of Inl _ \<Rightarrow> [] | Inr req \<Rightarrow> RequestId req)"

lemma reply_to_id: "reply_to req h resp \<Longrightarrow> RespRequestId resp = RequestId req"
  by (auto simp: reply_to_def elim!: handler_response.elims)

lemma rejected_routed_ids:
  "mset (map RespRequestId (rejected pb rt ds)) + mset (map (RequestId \<circ> fst) (routed pb rt ds)) =
   mset (map (request_id pb) ds)"
  by (induction ds)
    (auto simp: rejected_def routed_def dispatch_def request_id_def error_response_def
      split: sum.splits option.splits)

lemma all_answered:
  assumes "feed_conn_inv pb rt ds s" "quiescent pb rt s"
  shows "mset (map (\<lambda>(i, resp, d). RespRequestId resp) (answered s)) = mset (map (request_id pb) ds)"
proof -
  let ?n = "length (routed pb rt ds)"
  from assms have inv: "conn_inv pb rt s" "account_inv pb rt True s" "feed_inv ds s"
    by (auto simp: feed_conn_inv_def)
  have len0: "0 < length (goroutines s)" using inv(2) by (simp add: account_inv_def)
  have read: "goroutines s ! 0 = Reading" "ReadFrame conn_read (inp s) = None"
    using quiescent_goroutines [OF inv(1) assms(2) len0] inv(3) by (auto simp: feed_inv_def)
  with feed_read [OF inv(3)] have all: "received s = ds" by auto
  then have len: "length (goroutines s) = Suc ?n" using inv(2) by (simp add: account_inv_def)
  have main: "answers_of s 0 = rejected pb rt ds"
    using account_at [OF inv(2) len0] read(1) all by (simp add: main_ok_def)
  have worker: "map RespRequestId (answers_of s (Suc k)) = [RequestId (fst (routed pb rt ds ! k))]"
    if "k < ?n" for k
  proof -
    have "goroutines s ! Suc k = Finished"
      using quiescent_goroutines [OF inv(1) assms(2), of "Suc k"] that len by auto
    then show ?thesis
      using account_at [OF inv(2), of "Suc k"] that len all
      by (cases "routed pb rt ds ! k") (auto simp: reply_to_id)
  qed
  have "mset (map (\<lambda>(i, resp, d). RespRequestId resp) (answered s)) =
      (\<Sum>i<Suc ?n. mset (map (\<lambda>(i, resp, d). RespRequestId resp) (filter (\<lambda>a. fst a = i) (answered s))))"
    using inv(2) len by (intro mset_partition) (auto simp: account_inv_def)
  also have "\<dots> = (\<Sum>i<Suc ?n. mset (map RespRequestId (answers_of s i)))"
    by (simp add: answers_of_def split_beta' comp_def)
  also have "\<dots> = mset (map RespRequestId (rejected pb rt ds)) +
      (\<Sum>k<?n. {#RequestId (fst (routed pb rt ds ! k))#})"
    using worker main by (subst sum.lessThan_Suc_shift) (simp flip: mset_map)
  also have "(\<Sum>k<?n. {#RequestId (fst (routed pb rt ds ! k))#}) =
      mset (map (RequestId \<circ> fst) (routed pb rt ds))"
    using mset_sum_nth [of "RequestId \<circ> fst" "routed pb rt ds"] by simp
  finally show ?thesis by (simp only: rejected_routed_ids)
qed

section \<open>A connection whose read loop has ended\<close>

definition close_inv :: "'w conn_state \<Rightarrow> bool" where
  "close_inv s \<longleftrightarrow> role_inv s \<and> (goroutines s ! 0 = Finished \<longrightarrow> closed (out s))"

lemma closed_step:
  assumes "closed (out s)" "conn_step pb rt s s'"
  shows "closed (out s') \<and> answered s' = answered s \<and> sent (out s') = sent (out s)"
proof -
  from assms(2) obtain i where st: "goroutine_step pb rt i s = Some s'" by (rule conn_stepE)
  with assms(1) show ?thesis by (elim goroutine_stepE) (auto simp: conn_write_def)
qed

interpretation conn_close: invariant_of "conn_step pb rt" close_inv for pb rt
proof unfold_locales
  fix s t assume a: "close_inv s" "conn_step pb rt s t"
  then obtain i where st: "goroutine_step pb rt i s = Some t" by (blast elim: conn_stepE)
  note lt = goroutine_step_index [OF st]
  have "role_inv t" using a role_step by (auto simp: close_inv_def)
  moreover from st have "goroutines t ! 0 = Finished \<longrightarrow> closed (out t)"
    using a(1) lt
    by (elim goroutine_stepE)
      (auto simp: close_inv_def role_inv_def nth_list_update nth_append conn_write_closed split: if_splits)
  ultimately show "close_inv t" by (simp add: close_inv_def)
qed

interpretation conn_silent: invariant_of "conn_step pb rt"
  "\<lambda>s. closed (out s) \<and> answered s = a \<and> sent (out s) = b" for pb rt a b
  by unfold_locales (use closed_step in blast)

text \<open>A goroutine that has finished writes nothing more.\<close>

interpretation conn_finished: invariant_of "conn_step pb rt"
  "\<lambda>s. i < length (goroutines s) \<and> goroutines s ! i = Finished \<and> answers_of s i = a" for pb rt i a
proof unfold_locales
  fix s t assume inv: "i < length (goroutines s) \<and> goroutines s ! i = Finished \<and> answers_of s i = a"
    and "conn_step pb rt s t"
  then obtain j where st: "goroutine_step pb rt j s = Some t" by (blast elim: conn_stepE)
  with inv have "j \<noteq> i" by (auto simp: goroutine_step_def)
  with st inv show "i < length (goroutines t) \<and> goroutines t ! i = Finished \<and> answers_of t i = a"
    by (elim goroutine_stepE) (auto simp: answers_of_def nth_append)
qed

section \<open>A concrete service for the witnesses\<close>

text \<open>
  A codec in which a request is three bytes (request id, service and method, one character each)
  followed by the payload, and a response the bytes of its request id, an error mark and its
  payload; and a router with a method that echoes, and one that fails (a third one panics and is used
  alone). The handler state counts the calls.
\<close>

definition char_byte :: "char \<Rightarrow> byte" where
  "char_byte c = word_of_nat (of_char c)"

fun demo_unmarshal :: "bytes \<Rightarrow> string + RpcRequest" where
  "demo_unmarshal (i # s # m # p) =
     Inr \<lparr>RequestId = [byte_char i], Service = [byte_char s], Method = [byte_char m], Payload = p\<rparr>"
| "demo_unmarshal _ = Inl ''short''"

definition demo_pb :: rpc_pb where
  "demo_pb = \<lparr>unmarshal_request = demo_unmarshal,
     marshal_response = (\<lambda>r. Inr (map char_byte (RespRequestId r) @
       (if RespError r = None then 0 else 1) # RespPayload r))\<rparr>"

definition demo_echo :: "nat HandlerFunc" where
  "demo_echo p w = (Reply p, Suc w)"

definition demo_fail :: "nat HandlerFunc" where
  "demo_fail p w = (Fail ''no'', Suc w)"

definition demo_panic :: "nat HandlerFunc" where
  "demo_panic p w = (Panic ''boom'', w)"

definition demo_router :: "nat HandlerFunc Router" where
  "demo_router = register_all [(''S'', ''e'', demo_echo), (''S'', ''f'', demo_fail)] New"

lemma demo_total: "total_replies demo_pb demo_router"
proof -
  have h: "h = demo_echo \<or> h = demo_fail" if "Route demo_router s m = Some h" for s m h
    using that
    by (auto simp: demo_router_def Register_def Route_def New_def split: if_splits)
  show ?thesis
    unfolding total_replies_def
    by (auto simp: demo_pb_def dispatch_def demo_echo_def demo_fail_def split: sum.splits option.splits dest!: h)
qed

lemmas demo_eval = goroutine_step_def read_step_def handle_step_def header_step_def body_step_def
  unlock_step_def accept_conn_def set_pc_def reader_of_def dispatch_def demo_pb_def
  demo_router_def demo_echo_def demo_fail_def Register_def Route_def New_def route_key_def
  byte_char_def char_byte_def error_response_def conn_write_def frame_header_def PutUint32_def
  ReadFrame_def ReadFull_def read_loop.simps conn_read_def Uint32_def Let_def char_of_def bit_0

lemma run_schedule_reach: "run_schedule pb rt is s = Some t \<Longrightarrow> conn_reach pb rt s t"
proof (induction "is" arbitrary: s)
  case (Cons i "is")
  then obtain u where "goroutine_step pb rt i s = Some u" "run_schedule pb rt is u = Some t"
    by (auto split: option.splits)
  with Cons.IH show ?case by (blast intro: conn_step.step converse_rtranclp_into_rtranclp)
qed simp

lemma quiescent_iff: "quiescent pb rt s \<longleftrightarrow> (\<forall>t. \<not> conn_step pb rt s t)"
  by (auto simp: quiescent_def conn_step.simps dest: goroutine_step_index)
    (metis not_None_eq)

lemma conn_reaches_quiescent: "\<exists>t. conn_reach pb rt s t \<and> quiescent pb rt t"
  using conn_runs.reaches_final by (simp add: quiescent_iff)

lemma requests_all_answered:
  assumes "total_replies pb rt" "\<forall>d\<in>set ds. length d \<le> max_frame"
    and "concat cs = concat (map encode_frame ds)"
    and "conn_reach pb rt (accept_conn (reader_of cs None) None w) s" "quiescent pb rt s"
  shows "mset (map (\<lambda>(i, resp, d). RespRequestId resp) (answered s)) = mset (map (request_id pb) ds) \<and>
    sent (out s) = concat (map (\<lambda>(i, resp, d). encode_frame d) (answered s)) \<and>
    (\<forall>(i, resp, d) \<in> set (answered s). marshal_response pb resp = Inr d)"
proof -
  let ?s0 = "accept_conn (reader_of cs None) None w"
  have "feed_inv ds ?s0"
    using assms(2,3)
    by (simp add: feed_inv_def accept_conn_def reader_of_def pending_def reliable_def)
  then have "feed_conn_inv pb rt ds ?s0"
    using assms(1) by (simp add: feed_conn_inv_def conn_inv_start account_start)
  from conn_feed.inv_reached [OF assms(4) this] have inv: "feed_conn_inv pb rt ds s" .
  have idle: "Body resp d \<notin> set (goroutines s)" for resp d
    using quiescent_goroutines [OF _ assms(5)] inv by (fastforce simp: feed_conn_inv_def in_set_conv_nth)
  have "sent (out s) = wire s"
    using inv idle by (auto simp: feed_conn_inv_def conn_inv_def wire_inv_def feed_inv_def reliable_def)
  with all_answered [OF inv assms(5)] inv show ?thesis
    by (simp add: wire_def feed_conn_inv_def account_inv_def split_beta)
qed

section \<open>Properties\<close>

text \<open>C2. Every request is answered exactly once: when the frames \<open>ds\<close> have arrived on a connection
  that stays open, in whatever chunks, and the goroutines have run under any schedule until none
  can step, the request ids of the responses written are, counted with multiplicity, those of
  the frames (the empty id for a frame that is not a request), and the wire holds these responses,
  complete and one after the other. Assumed: no handler panics and responses can be marshalled.\<close>

theorem every_request_answered:
  assumes "total_replies pb rt" "\<forall>d\<in>set ds. length d \<le> max_frame"
    and "concat cs = concat (map encode_frame ds)"
    and "conn_reach pb rt (accept_conn (reader_of cs None) None w) s" "quiescent pb rt s"
  shows "mset (map (\<lambda>(i, resp, d). RespRequestId resp) (answered s)) = mset (map (request_id pb) ds) \<and>
    sent (out s) = concat (map (\<lambda>(i, resp, d). encode_frame d) (answered s)) \<and>
    (\<forall>(i, resp, d) \<in> set (answered s). marshal_response pb resp = Inr d)"
  using assms by (rule requests_all_answered)

theorem every_request_answered_witness:
  "\<exists>s. conn_reach demo_pb demo_router
      (accept_conn (reader_of [[0,0,0,4,65,83,101], [7,0,0,0,1,9], [0,0,0,3,66,83,102]] None) None 0) s \<and>
    quiescent demo_pb demo_router s \<and>
    mset (map (\<lambda>(i, resp, d). RespRequestId resp) (answered s)) = {#''A'', [], ''B''#}"
proof -
  let ?cs = "[[0,0,0,4,65,83,101], [7,0,0,0,1,9], [0,0,0,3,66,83,102]] :: bytes list"
  let ?ds = "[[65,83,101,7], [9], [66,83,102]] :: bytes list"
  obtain s where s: "conn_reach demo_pb demo_router (accept_conn (reader_of ?cs None) None 0) s"
    "quiescent demo_pb demo_router s"
    using conn_reaches_quiescent by blast
  have "concat ?cs = concat (map encode_frame ?ds)"
    by (simp add: encode_frame_def frame_header_def PutUint32_def)
  from every_request_answered [OF demo_total _ this s] s show ?thesis
    by (auto simp: request_id_def demo_pb_def byte_char_def char_of_def bit_0 max_frame_def)
qed

text \<open>C9. A connection does bounded work on what it receives: a run on \<open>n\<close> bytes of input makes at
  most \<open>2 n + 1\<close> steps, and from every state a state without further steps is reached.\<close>

theorem connection_terminates:
  assumes "(conn_step pb rt ^^ k) (accept_conn r rm w) s"
  shows "k \<le> 2 * length (pending r) + 1 \<and> (\<exists>t. conn_reach pb rt s t \<and> quiescent pb rt t)"
  using conn_runs.run_bound [OF assms] conn_reaches_quiescent [of pb rt s]
  by (simp add: conn_rank_def accept_conn_def)

theorem connection_terminates_witness:
  "\<exists>s. (conn_step demo_pb demo_router ^^ 1) (accept_conn (reader_of [[0,0,0,1,9]] None) None 0) s \<and>
     1 \<le> 2 * length (pending (reader_of [[0,0,0,1,9]] None)) + 1 \<and>
     (\<exists>t. conn_reach demo_pb demo_router s t \<and> quiescent demo_pb demo_router t)"
proof -
  obtain s where "goroutine_step demo_pb demo_router 0 (accept_conn (reader_of [[0,0,0,1,9]] None) None 0) = Some s"
    by (simp add: demo_eval)
  then have "(conn_step demo_pb demo_router ^^ 1) (accept_conn (reader_of [[0,0,0,1,9]] None) None 0) s"
    by (auto intro: conn_step.step)
  with connection_terminates [OF this] show ?thesis by auto
qed

text \<open>C4. Responses are never interleaved: in every state of every run, however many bytes the peer
  takes and whatever fails, the bytes on the wire are the complete frames of the responses recorded as
  answered, one after the other, and then nothing, or exactly the header of the frame that the holder of
  \<open>writeMu\<close> is writing, or a part of the frame of one response whose write failed; in the last case the
  connection takes no further byte. A frame under way or cut off is the marshalled form of a response
  that its goroutine owes.\<close>

theorem frames_never_interleave:
  assumes "conn_reach pb rt (accept_conn r rm w) s"
  shows "\<exists>q. sent (out s) = concat (map (\<lambda>(i, resp, d). encode_frame d) (answered s)) @ q \<and>
    (q = [] \<or>
     (\<exists>i resp d. writeMu s = Some i \<and> goroutines s ! i = Body resp d \<and> q = frame_header d \<and>
        marshal_response pb resp = Inr d \<and> owed pb rt (received s) i resp) \<or>
     (closed (out s) \<or> room (out s) = Some 0) \<and>
     (\<exists>(i, resp, d)\<in>set (failed s). prefix q (encode_frame d) \<and>
        marshal_response pb resp = Inr d \<and> owed pb rt (received s) i resp))"
proof -
  from conn_reached [OF assms] have inv: "wire_inv s" "mutex_inv s" "account_inv pb rt False s" "failed_inv pb rt s"
    by (simp_all add: conn_inv_def)
  from inv(1) obtain q where q: "sent (out s) = wire s @ q"
    and tail: "(\<exists>resp d. Body resp d \<in> set (goroutines s) \<and> q = frame_header d) \<or> q = [] \<or>
      (closed (out s) \<or> room (out s) = Some 0) \<and> (\<exists>(i, resp, d)\<in>set (failed s). prefix q (encode_frame d))"
    unfolding wire_inv_def by blast
  have body: "\<exists>i. writeMu s = Some i \<and> goroutines s ! i = Body resp d \<and>
      marshal_response pb resp = Inr d \<and> owed pb rt (received s) i resp"
    if "Body resp d \<in> set (goroutines s)" for resp d
  proof -
    from that obtain i where i: "i < length (goroutines s)" "goroutines s ! i = Body resp d"
      by (auto simp: in_set_conv_nth)
    with inv(2) have "writeMu s = Some i" unfolding mutex_inv_def by (metis holds_lock.simps(2))
    with i writing_owed [OF inv(3) i(1)] show ?thesis by blast
  qed
  from q tail body inv(4) show ?thesis
    unfolding wire_def failed_inv_def by (intro exI [of _ q]) fastforce
qed

theorem frames_never_interleave_witness:
  "\<exists>s. conn_reach demo_pb demo_router (accept_conn (reader_of [[0,0,0,1,9]] None) (Some 4) 0) s \<and>
    sent (out s) = [0,0,0,1] \<and>
    (\<exists>(i, resp, d)\<in>set (failed s). prefix [0,0,0,1] (encode_frame d) \<and> marshal_response demo_pb resp = Inr d \<and>
       owed demo_pb demo_router (received s) i resp)"
proof -
  let ?s0 = "accept_conn (reader_of [[0,0,0,1,9]] None) (Some 4) 0"
  obtain s where s: "run_schedule demo_pb demo_router [0,0,0,0] ?s0 = Some s" "sent (out s) = [0,0,0,1]"
    "answered s = []" "goroutines s = [Unlocking]" "writeMu s = Some 0"
    by (simp add: demo_eval)
  with frames_never_interleave [OF run_schedule_reach [OF s(1)]] run_schedule_reach [OF s(1)]
  show ?thesis by auto
qed

text \<open>C19. Mutual exclusion and no deadlock: a goroutine is between \<open>writeMu.Lock\<close> and \<open>writeMu.Unlock\<close>
  exactly when it is the recorded holder of the mutex, so there is at most one; and when no goroutine
  can step, the mutex is free, every request goroutine has finished and the read loop has finished or
  waits for input.\<close>

theorem write_lock_sound:
  assumes "conn_reach pb rt (accept_conn r rm w) s" "i < length (goroutines s)"
  shows "(holds_lock (goroutines s ! i) \<longleftrightarrow> writeMu s = Some i) \<and>
    (\<forall>j < length (goroutines s). holds_lock (goroutines s ! i) \<and> holds_lock (goroutines s ! j) \<longrightarrow> i = j) \<and>
    (quiescent pb rt s \<longrightarrow> writeMu s = None \<and> (goroutines s ! i = Finished \<or>
       i = 0 \<and> goroutines s ! i = Reading \<and> ReadFrame conn_read (inp s) = None))"
proof (intro conjI impI allI)
  from conn_reached [OF assms(1)] have inv: "conn_inv pb rt s" .
  then have mutex: "holds_lock (goroutines s ! j) \<longleftrightarrow> writeMu s = Some j" if "j < length (goroutines s)" for j
    using that by (simp add: conn_inv_def mutex_inv_def)
  show "holds_lock (goroutines s ! i) \<longleftrightarrow> writeMu s = Some i" using mutex assms(2) by blast
  show "i = j" if "j < length (goroutines s)" "holds_lock (goroutines s ! i) \<and> holds_lock (goroutines s ! j)" for j
    using that mutex [of i] mutex [of j] assms(2) by (metis option.inject)
  assume "quiescent pb rt s"
  with inv quiescent_free quiescent_goroutines assms(2)
  show "writeMu s = None" "goroutines s ! i = Finished \<or>
      i = 0 \<and> goroutines s ! i = Reading \<and> ReadFrame conn_read (inp s) = None"
    by blast+
qed

theorem write_lock_sound_witness:
  "\<exists>s. conn_reach demo_pb demo_router (accept_conn (reader_of [[0,0,0,4,65,83,101,7]] None) None 0) s \<and>
    length (goroutines s) = 2 \<and> writeMu s = Some 1 \<and> \<not> holds_lock (goroutines s ! 0)"
proof -
  let ?s0 = "accept_conn (reader_of [[0,0,0,4,65,83,101,7]] None) None 0"
  obtain s where s: "run_schedule demo_pb demo_router [0,1,1] ?s0 = Some s" "length (goroutines s) = 2"
    "holds_lock (goroutines s ! 1)"
    by (simp add: demo_eval)
  with write_lock_sound [OF run_schedule_reach [OF s(1)], of 1] run_schedule_reach [OF s(1)]
  show ?thesis by fastforce
qed

text \<open>C8. Whatever fails, a response belongs to its request: every response written comes from the read
  loop or from the goroutine of a request read and routed; a frame written by the goroutine of the
  \<open>k\<close>-th routed request is the marshalled result of the handler that request was routed to, under
  its request id, and there is at most one; the read loop writes only its own 400 and 404
  responses, in the order of the frames they answer.\<close>

theorem responses_belong:
  assumes "conn_reach pb rt (accept_conn r rm w) s"
  shows "(\<forall>(i, resp, d) \<in> set (answered s). marshal_response pb resp = Inr d \<and>
      i \<le> length (routed pb rt (received s))) \<and>
    subseq (answers_of s 0) (rejected pb rt (received s)) \<and>
    (\<forall>k < length (routed pb rt (received s)). case routed pb rt (received s) ! k of (req, h) \<Rightarrow>
       answers_of s (Suc k) = [] \<or>
       (\<exists>resp w. answers_of s (Suc k) = [resp] \<and> RespRequestId resp = RequestId req \<and>
          handler_response req (fst (h (Payload req) w)) = Some resp))"
proof -
  from conn_reached [OF assms] have inv: "account_inv pb rt False s" by (simp add: conn_inv_def)
  have "answers_of s (Suc k) = [] \<or>
      (\<exists>resp w. answers_of s (Suc k) = [resp] \<and> RespRequestId resp = RequestId req \<and>
         handler_response req (fst (h (Payload req) w)) = Some resp)"
    if "k < length (routed pb rt (received s))" "routed pb rt (received s) ! k = (req, h)" for k req h
  proof -
    have "worker_ok False (req, h) (goroutines s ! Suc k) (answers_of s (Suc k))"
      using account_at [OF inv, of "Suc k"] that inv by (simp add: account_inv_def)
    then have "answers_of s (Suc k) = [] \<or> (\<exists>resp. answers_of s (Suc k) = [resp] \<and> reply_to req h resp)"
      by (cases "goroutines s ! Suc k") auto
    then show ?thesis using reply_to_id [of req h] unfolding reply_to_def by blast
  qed
  moreover have "subseq (answers_of s 0) (rejected pb rt (received s))"
  proof -
    have "0 < length (goroutines s)" using inv by (simp add: account_inv_def)
    from account_at [OF inv this] show ?thesis
      by (auto simp: main_ok_def intro: list_emb_prefix)
  qed
  ultimately show ?thesis using inv by (auto simp: account_inv_def)
qed

theorem responses_belong_witness:
  "\<exists>s resp. conn_reach demo_pb demo_router
      (accept_conn (reader_of [[0,0,0,4,65,83,101,7]] (Some EOF)) None 0) s \<and>
    answers_of s 1 = [resp] \<and> RespRequestId resp = ''A''"
proof -
  let ?s0 = "accept_conn (reader_of [[0,0,0,4,65,83,101,7]] (Some EOF)) None 0"
  obtain s where s: "run_schedule demo_pb demo_router [0,1,1,1,1] ?s0 = Some s"
    "length (answers_of s 1) = 1" "received s = [[65,83,101,7]]"
    by (simp add: demo_eval answers_of_def)
  have "routed demo_pb demo_router [[65,83,101,7]] =
      [(\<lparr>RequestId = ''A'', Service = ''S'', Method = ''e'', Payload = [7]\<rparr>, demo_echo)]"
    by (simp add: routed_def demo_eval)
  with responses_belong [OF run_schedule_reach [OF s(1)]] run_schedule_reach [OF s(1)] s(2,3)
  show ?thesis by fastforce
qed

text \<open>C23. \<open>handleConnection\<close> closes the connection when its read loop ends, without waiting for the
  goroutines it started: from then on not one byte is written, so a response still being computed
  when the client shuts down its sending side is lost.\<close>

theorem nothing_written_after_read_error:
  assumes "conn_reach pb rt (accept_conn r rm w) s" "goroutines s ! 0 = Finished" "conn_reach pb rt s t"
  shows "answered t = answered s \<and> sent (out t) = sent (out s)"
proof -
  have "close_inv (accept_conn r rm w)" by (simp add: close_inv_def role_inv_def accept_conn_def)
  from conn_close.inv_reached [OF assms(1) this] assms(2) have "closed (out s)"
    by (simp add: close_inv_def)
  with conn_silent.inv_reached [OF assms(3), of "answered s" "sent (out s)"] show ?thesis by simp
qed

theorem nothing_written_after_read_error_witness:
  "\<exists>s. conn_reach demo_pb demo_router
      (accept_conn (reader_of [[0,0,0,4,65,83,101,7]] (Some EOF)) None 0) s \<and>
    goroutines s = [Finished, Handling \<lparr>RequestId = ''A'', Service = ''S'', Method = ''e'', Payload = [7]\<rparr> demo_echo] \<and>
    (\<forall>t. conn_reach demo_pb demo_router s t \<longrightarrow> sent (out t) = [])"
proof -
  let ?s0 = "accept_conn (reader_of [[0,0,0,4,65,83,101,7]] (Some EOF)) None 0"
  obtain s where s: "run_schedule demo_pb demo_router [0,0] ?s0 = Some s" "sent (out s) = []"
    "goroutines s = [Finished, Handling \<lparr>RequestId = ''A'', Service = ''S'', Method = ''e'', Payload = [7]\<rparr> demo_echo]"
    by (simp add: demo_eval)
  with nothing_written_after_read_error [OF run_schedule_reach [OF s(1)]] run_schedule_reach [OF s(1)]
  show ?thesis by auto
qed

text \<open>C24. A panicking handler is contained but its caller is left waiting: the step that recovers
  the panic ends that goroutine, leaves every other goroutine, the mutex and the wire as they are,
  and in no later state is there a response to that request.\<close>

theorem panic_contained_unanswered:
  assumes "conn_reach pb rt (accept_conn r rm w) s" "i < length (goroutines s)"
    and "goroutines s ! i = Handling req h" "fst (h (Payload req) (world s)) = Panic m"
    and "goroutine_step pb rt i s = Some t" "conn_reach pb rt t u"
  shows "goroutines t = (goroutines s)[i := Finished] \<and> writeMu t = writeMu s \<and> out t = out s \<and>
    answers_of u i = []"
proof -
  from conn_reached [OF assms(1)] have inv: "account_inv pb rt False s" "role_inv s"
    by (simp_all add: conn_inv_def)
  obtain k where k: "i = Suc k" using assms(3) inv(2) by (cases i) (auto simp: role_inv_def)
  have none: "answers_of s i = []"
    using account_at [OF inv(1) assms(2)] assms(3) k
    by (cases "routed pb rt (received s) ! k") auto
  have t: "t = set_pc i Finished (s\<lparr>world := snd (h (Payload req) (world s))\<rparr>)"
    using assms(2-5) by (simp add: goroutine_step_def handle_step_def split_beta)
  with none assms(2) have "answers_of t i = []" by (simp add: answers_of_def)
  with conn_finished.inv_reached [OF assms(6), of i "[]"] t assms(2) show ?thesis by simp
qed

theorem panic_contained_unanswered_witness:
  "\<exists>s. conn_reach demo_pb (register_all [(''S'', ''p'', demo_panic)] New)
      (accept_conn (reader_of [[0,0,0,3,65,83,112]] None) None 0) s \<and>
    goroutines s = [Reading, Finished] \<and> answers_of s 1 = []"
proof -
  let ?s0 = "accept_conn (reader_of [[0,0,0,3,65,83,112]] None) None 0"
  let ?rt = "register_all [(''S'', ''p'', demo_panic)] New"
  let ?req = "\<lparr>RequestId = ''A'', Service = ''S'', Method = ''p'', Payload = []\<rparr>"
  obtain s where s: "run_schedule demo_pb ?rt [0] ?s0 = Some s" "goroutines s = [Reading, Handling ?req demo_panic]"
    by (simp add: demo_eval demo_panic_def)
  then obtain t where t: "goroutine_step demo_pb ?rt 1 s = Some t"
    by (simp add: goroutine_step_def)
  have "goroutines t = [Reading, Finished] \<and> answers_of t 1 = []"
    using panic_contained_unanswered [OF run_schedule_reach [OF s(1)] _ _ _ t rtranclp.rtrancl_refl, of ?req demo_panic] s(2)
    by (simp add: demo_panic_def)
  moreover have "conn_reach demo_pb ?rt ?s0 t"
    using run_schedule_reach [OF s(1)] t by (blast intro: conn_step.step rtranclp.rtrancl_into_rtrancl)
  ultimately show ?thesis by blast
qed

end
