(* ===== verification/Registry_Client.thy ===== *)
theory Registry_Client
  imports Codec Messages
begin

text \<open>
  The registry client, \<open>internal/registry/client.go\<close>: its state, \<open>Register\<close> with all its error
  exits, \<open>Deregister\<close> and \<open>Stop\<close>, one heartbeat with its failure counter, the back-off.
  \<open>Run\<close>, the reader and their concurrency with \<open>Stop\<close> are in \<open>Registry_Run\<close>.

  Connections live in a store (\<open>net\<close>) and the client holds a pointer into it, so that a
  connection the client forgets without closing it stays visible. The answer of a dial is chosen by
  the environment; with it comes everything the peer will ever send on that connection and how the
  connection ends, in both directions.
\<close>

section \<open>The client and its connections\<close>

record net_conn =
  nc_in :: reader
  nc_out :: writer

record Client =
  registryAddr :: string
  selfPort :: int64
  serviceName :: string
  heartbeatInterval :: int64
  heartbeatMaxFail :: int64
  reconnectBackoff :: int64
  reconnectMaxBackoff :: int64
  conn :: "nat option"
  stopCh :: bool

type_synonym net = "net_conn list"

definition NewClient ::
    "string \<Rightarrow> int64 \<Rightarrow> string \<Rightarrow> int64 \<Rightarrow> int64 \<Rightarrow> int64 \<Rightarrow> int64 \<Rightarrow> Client" where
  "NewClient addr port service interval maxFail backoff maxBackoff =
     \<lparr>registryAddr = addr, selfPort = port, serviceName = service, heartbeatInterval = interval,
      heartbeatMaxFail = maxFail, reconnectBackoff = backoff, reconnectMaxBackoff = maxBackoff,
      conn = None, stopCh = False\<rparr>"

datatype conn_error = NotConnected | Failed codec_error

definition is_open :: "net_conn \<Rightarrow> bool" where
  "is_open k \<longleftrightarrow> \<not> closed (nc_out k)"

text \<open>\<open>conn.Close()\<close>: reads and writes fail from now on.\<close>

definition close_net_conn :: "net_conn \<Rightarrow> net_conn" where
  "close_net_conn k = k\<lparr>nc_in := \<lparr>chunks = [], ending = Some ErrClosed\<rparr>,
     nc_out := (nc_out k)\<lparr>closed := True\<rparr>\<rparr>"

definition closeConn :: "Client \<Rightarrow> net \<Rightarrow> Client \<times> net" where
  "closeConn c n =
     (case conn c of
        None \<Rightarrow> (c, n)
      | Some k \<Rightarrow> (c\<lparr>conn := None\<rparr>, n[k := close_net_conn (n ! k)]))"

definition writeFrame :: "bytes \<Rightarrow> Client \<Rightarrow> net \<Rightarrow> conn_error option \<times> net" where
  "writeFrame data c n =
     (case conn c of
        None \<Rightarrow> (Some NotConnected, n)
      | Some k \<Rightarrow>
          (case WriteFrame conn_write data (nc_out (n ! k)) of
             (e, w) \<Rightarrow> (map_option (\<lambda>x. Failed (IOError x)) e, n[k := (n ! k)\<lparr>nc_out := w\<rparr>])))"

definition readFrame :: "Client \<Rightarrow> net \<Rightarrow> ((conn_error + bytes) \<times> net) option" where
  "readFrame c n =
     (case conn c of
        None \<Rightarrow> Some (Inl NotConnected, n)
      | Some k \<Rightarrow>
          (case ReadFrame conn_read (nc_in (n ! k)) of
             None \<Rightarrow> None
           | Some (res, r) \<Rightarrow>
               Some (case res of Inl e \<Rightarrow> Inl (Failed e) | Inr d \<Rightarrow> Inr d, n[k := (n ! k)\<lparr>nc_in := r\<rparr>])))"

section \<open>Register\<close>

datatype reg_error =
    ConnectFailed string
  | MarshalFailed string
  | WriteFailed conn_error
  | ReadFailed conn_error
  | UnmarshalFailed string
  | RegistrationFailed string

datatype dial = DialError string | Dialed reader "nat option"

definition register_message :: "Client \<Rightarrow> RegistryMessage" where
  "register_message c = Some (RM_Register \<lparr>RegPort = ucast (selfPort c), RegService = serviceName c\<rparr>)"

definition heartbeat_message :: "Client \<Rightarrow> RegistryMessage" where
  "heartbeat_message c = Some (RM_Heartbeat \<lparr>HbPort = ucast (selfPort c)\<rparr>)"

text \<open>The three parts of \<open>Register\<close>, between which \<open>Stop\<close> may run.\<close>

fun reg_dial :: "dial \<Rightarrow> Client \<Rightarrow> net \<Rightarrow> reg_error option \<times> Client \<times> net" where
  "reg_dial (DialError e) c n = (Some (ConnectFailed e), c, n)"
| "reg_dial (Dialed r rm) c n =
     (None, c\<lparr>conn := Some (length n)\<rparr>,
      n @ [\<lparr>nc_in = r, nc_out = \<lparr>sent = [], room = rm, closed = False\<rparr>\<rparr>])"

definition reg_send :: "registry_pb \<Rightarrow> Client \<Rightarrow> net \<Rightarrow> reg_error option \<times> Client \<times> net" where
  "reg_send pb c n =
     (case marshal_registry pb (register_message c) of
        Inl e \<Rightarrow> (Some (MarshalFailed e), closeConn c n)
      | Inr data \<Rightarrow>
          (case writeFrame data c n of
             (Some e, n1) \<Rightarrow> (Some (WriteFailed e), closeConn c n1)
           | (None, n1) \<Rightarrow> (None, c, n1)))"

fun rejection :: "RegistryMessage \<Rightarrow> string option" where
  "rejection (Some (RM_Response r)) = (if Success r then None else Some (RespMessage r))"
| "rejection _ = Some ''unknown error''"

definition reg_recv :: "registry_pb \<Rightarrow> Client \<Rightarrow> net \<Rightarrow> (reg_error option \<times> Client \<times> net) option" where
  "reg_recv pb c n =
     (case readFrame c n of
        None \<Rightarrow> None
      | Some (Inl e, n1) \<Rightarrow> Some (Some (ReadFailed e), closeConn c n1)
      | Some (Inr data, n1) \<Rightarrow>
          (case unmarshal_registry pb data of
             Inl e \<Rightarrow> Some (Some (UnmarshalFailed e), closeConn c n1)
           | Inr resp \<Rightarrow>
               (case rejection resp of
                  Some msg \<Rightarrow> Some (Some (RegistrationFailed msg), closeConn c n1)
                | None \<Rightarrow> Some (None, c, n1))))"

definition Register :: "registry_pb \<Rightarrow> dial \<Rightarrow> Client \<Rightarrow> net \<Rightarrow> (reg_error option \<times> Client \<times> net) option" where
  "Register pb d c n =
     (case reg_dial d c n of
        (Some e, c1, n1) \<Rightarrow> Some (Some e, c1, n1)
      | (None, c1, n1) \<Rightarrow>
          (case reg_send pb c1 n1 of
             (Some e, c2, n2) \<Rightarrow> Some (Some e, c2, n2)
           | (None, c2, n2) \<Rightarrow> reg_recv pb c2 n2))"

section \<open>Deregister, Stop\<close>

definition Deregister :: "Client \<Rightarrow> net \<Rightarrow> Client \<times> net" where
  "Deregister c n = closeConn (c\<lparr>stopCh := True\<rparr>) n"

definition Stop :: "Client \<Rightarrow> net \<Rightarrow> Client \<times> net" where
  "Stop c n = Deregister c n"

section \<open>Heartbeats and back-off\<close>

datatype beat = NotMarshalled | BeatFailed | BeatSent

text \<open>One heartbeat: the marshalled message is written to the current connection.\<close>

definition send_heartbeat :: "registry_pb \<Rightarrow> Client \<Rightarrow> net \<Rightarrow> beat \<times> net" where
  "send_heartbeat pb c n =
     (case marshal_registry pb (heartbeat_message c) of
        Inl _ \<Rightarrow> (NotMarshalled, n)
      | Inr data \<Rightarrow>
          (case writeFrame data c n of (Some _, n1) \<Rightarrow> (BeatFailed, n1) | (None, n1) \<Rightarrow> (BeatSent, n1)))"

text \<open>The failure counter of \<open>heartbeatLoop\<close>; \<open>None\<close> when the loop returns.\<close>

fun count_beat :: "int64 \<Rightarrow> int64 \<Rightarrow> beat \<Rightarrow> int64 option" where
  "count_beat maxFail failCount NotMarshalled = Some failCount"
| "count_beat maxFail failCount BeatFailed =
     (if maxFail \<le>s failCount + 1 then None else Some (failCount + 1))"
| "count_beat maxFail failCount BeatSent = Some 0"

fun count_beats :: "int64 \<Rightarrow> int64 \<Rightarrow> beat list \<Rightarrow> int64 option" where
  "count_beats maxFail f [] = Some f"
| "count_beats maxFail f (b # bs) =
     (case count_beat maxFail f b of None \<Rightarrow> None | Some f' \<Rightarrow> count_beats maxFail f' bs)"

definition next_backoff :: "int64 \<Rightarrow> int64 \<Rightarrow> int64" where
  "next_backoff maxBackoff b = (if b <s maxBackoff then b * 2 else b)"

section \<open>Frames on the current connection only\<close>

text \<open>
  Every operation but \<open>reg_dial\<close> touches only the connection the client points to, and a
  connection is closed only where the pointer is cleared.
\<close>

definition same_identity :: "Client \<Rightarrow> Client \<Rightarrow> bool" where
  "same_identity c c' \<longleftrightarrow> c' = c\<lparr>conn := conn c', stopCh := stopCh c'\<rparr>"

definition on_current :: "Client \<Rightarrow> net \<Rightarrow> Client \<Rightarrow> net \<Rightarrow> bool" where
  "on_current c n c' n' \<longleftrightarrow> same_identity c c' \<and> length n' = length n \<and>
     (\<forall>j. conn c \<noteq> Some j \<longrightarrow> n' ! j = n ! j) \<and>
     (conn c' = conn c \<and> (\<forall>j < length n. is_open (n' ! j) = is_open (n ! j)) \<or> conn c' = None)"

lemma same_identity_refl [simp]: "same_identity c c"
  by (simp add: same_identity_def)

lemma same_identity_trans: "same_identity a b \<Longrightarrow> same_identity b c \<Longrightarrow> same_identity a c"
  unfolding same_identity_def by (cases a, cases b, cases c) simp

lemma on_current_refl [simp]: "on_current c n c n"
  by (simp add: on_current_def)

lemma on_current_trans:
  assumes "on_current c n c1 n1" "on_current c1 n1 c2 n2" "conn c1 = conn c"
  shows "on_current c n c2 n2"
  using assms same_identity_trans unfolding on_current_def by (auto; metis)

lemma closeConn_current: "closeConn c n = (c', n') \<Longrightarrow> on_current c n c' n' \<and> conn c' = None \<and> stopCh c' = stopCh c"
  by (auto simp: closeConn_def on_current_def same_identity_def split: option.splits)

lemma is_open_simps [simp]:
  "is_open (k\<lparr>nc_in := r\<rparr>) = is_open k"
  "is_open (k\<lparr>nc_out := w\<rparr>) \<longleftrightarrow> \<not> closed w"
  "\<not> is_open (close_net_conn k)"
  by (simp_all add: is_open_def close_net_conn_def)

lemma is_open_update: "is_open x = is_open (n ! k) \<Longrightarrow> is_open (n[k := x] ! j) = is_open (n ! j)"
  by (cases "k < length n"; cases "k = j") (simp_all add: list_update_beyond)

lemma writeFrame_current: "writeFrame d c n = (e, n') \<Longrightarrow> on_current c n c n'"
  by (auto simp: writeFrame_def on_current_def is_open_update WriteFrame_closed is_open_def [of "n ! _"]
      split: option.splits prod.splits)

lemma readFrame_current: "readFrame c n = Some (res, n') \<Longrightarrow> on_current c n c n'"
  by (auto simp: readFrame_def on_current_def is_open_update split: option.splits)

lemma send_heartbeat_current: "send_heartbeat pb c n = (b, n') \<Longrightarrow> on_current c n c n'"
  by (auto simp: send_heartbeat_def dest!: writeFrame_current split: sum.splits option.splits prod.splits)

lemma reg_send_current:
  "reg_send pb c n = (e, c', n') \<Longrightarrow> on_current c n c' n' \<and> stopCh c' = stopCh c \<and> (e \<noteq> None \<longrightarrow> conn c' = None)"
  by (auto simp: reg_send_def dest!: writeFrame_current closeConn_current intro: on_current_trans
      split: sum.splits option.splits prod.splits)

lemma reg_recv_current:
  "reg_recv pb c n = Some (e, c', n') \<Longrightarrow> on_current c n c' n' \<and> stopCh c' = stopCh c \<and> (e \<noteq> None \<longrightarrow> conn c' = None)"
  by (auto simp: reg_recv_def dest!: readFrame_current closeConn_current intro: on_current_trans
      split: sum.splits option.splits prod.splits)

section \<open>What Register does to the connections\<close>

lemma new_conn_nth [simp]: "(n @ [k]) ! length n = k" "(n @ [k])[length n := k'] = n @ [k']"
  by simp_all

lemma open_conn_write:
  assumes "WriteFrame conn_write data \<lparr>sent = [], room = rm, closed = False\<rparr> = (e, w)"
  shows "closed w = False" "e = None \<Longrightarrow> sent w = encode_frame data"
    "e = None \<longleftrightarrow> (case rm of None \<Rightarrow> True | Some k \<Rightarrow> length (encode_frame data) \<le> k)"
  using assms
  by (auto simp: WriteFrame_def conn_write_def encode_frame_def split: option.splits if_splits)

definition fresh_conn :: "Client \<Rightarrow> net \<Rightarrow> net_conn \<Rightarrow> Client \<times> net" where
  "fresh_conn c n k = (c\<lparr>conn := Some (length n)\<rparr>, n @ [k])"

definition dropped_conn :: "Client \<Rightarrow> net \<Rightarrow> net_conn \<Rightarrow> Client \<times> net" where
  "dropped_conn c n k = (c\<lparr>conn := None\<rparr>, n @ [close_net_conn k])"

lemma closeConn_fresh:
  "closeConn (c\<lparr>conn := Some (length n)\<rparr>) (n @ [k]) = dropped_conn c n k"
  by (simp add: closeConn_def dropped_conn_def)

lemma register_message_conn [simp]: "register_message (c\<lparr>conn := k\<rparr>) = register_message c"
  by (simp add: register_message_def)

lemma reg_send_fresh:
  assumes k: "nc_out k = \<lparr>sent = [], room = rm, closed = False\<rparr>"
  shows "reg_send pb (c\<lparr>conn := Some (length n)\<rparr>) (n @ [k]) =
    (case marshal_registry pb (register_message c) of
       Inl e \<Rightarrow> (Some (MarshalFailed e), dropped_conn c n k)
     | Inr data \<Rightarrow>
         (case WriteFrame conn_write data (nc_out k) of
            (Some e, w) \<Rightarrow> (Some (WriteFailed (Failed (IOError e))), dropped_conn c n (k\<lparr>nc_out := w\<rparr>))
          | (None, w) \<Rightarrow> (None, fresh_conn c n (k\<lparr>nc_out := w\<rparr>))))"
  by (auto simp: reg_send_def writeFrame_def closeConn_fresh fresh_conn_def
      split: sum.splits prod.splits option.splits)

lemma reg_recv_fresh:
  "reg_recv pb (c\<lparr>conn := Some (length n)\<rparr>) (n @ [k]) =
    (case ReadFrame conn_read (nc_in k) of
       None \<Rightarrow> None
     | Some (Inl e, r) \<Rightarrow> Some (Some (ReadFailed (Failed e)), dropped_conn c n (k\<lparr>nc_in := r\<rparr>))
     | Some (Inr reply, r) \<Rightarrow>
         (case unmarshal_registry pb reply of
            Inl e \<Rightarrow> Some (Some (UnmarshalFailed e), dropped_conn c n (k\<lparr>nc_in := r\<rparr>))
          | Inr resp \<Rightarrow>
              (case rejection resp of
                 Some msg \<Rightarrow> Some (Some (RegistrationFailed msg), dropped_conn c n (k\<lparr>nc_in := r\<rparr>))
               | None \<Rightarrow> Some (None, fresh_conn c n (k\<lparr>nc_in := r\<rparr>)))))"
  by (auto simp: reg_recv_def readFrame_def closeConn_fresh fresh_conn_def
      split: sum.splits prod.splits option.splits)

lemma rejection_None: "rejection m = None \<longleftrightarrow> (\<exists>resp. m = Some (RM_Response resp) \<and> Success resp)"
  by (cases m rule: rejection.cases) auto

lemma ReadFrame_reply:
  "(\<exists>r'. ReadFrame conn_read r = Some (Inr reply, r')) \<longleftrightarrow>
   (\<exists>rest. frame_spec (pending r) (ending r) = Some (Inr reply, rest))"
  using tcp_in.ReadFrame_abs [of r]
  by (cases "ReadFrame conn_read r"; cases "frame_spec (pending r) (ending r)") auto

lemmas Register_fresh = Register_def reg_send_fresh reg_recv_fresh fresh_conn_def

lemma Register_exits:
  assumes "Register pb (Dialed r rm) c n = Some (e, c', n')"
  obtains (failed) k where "e \<noteq> None" "dropped_conn c n k = (c', n')"
  | (registered) data w reply r' resp where "e = None"
    "marshal_registry pb (register_message c) = Inr data"
    "WriteFrame conn_write data \<lparr>sent = [], room = rm, closed = False\<rparr> = (None, w)"
    "ReadFrame conn_read r = Some (Inr reply, r')"
    "unmarshal_registry pb reply = Inr (Some (RM_Response resp))" "Success resp"
    "fresh_conn c n \<lparr>nc_in = r', nc_out = w\<rparr> = (c', n')"
  using assms
  by (auto simp: Register_fresh rejection_None split: sum.splits prod.splits option.splits)

section \<open>The failure counter\<close>

text \<open>The number of consecutive failures after which \<open>heartbeatLoop\<close> returns.\<close>

definition fail_limit :: "int64 \<Rightarrow> nat" where
  "fail_limit maxFail = nat (max 1 (sint maxFail))"

lemma sint64_succ:
  assumes "0 \<le> sint (f :: int64)" "sint f < sint (m :: int64)"
  shows "sint (f + 1) = sint f + 1"
proof -
  have "sint m < 2 ^ 63" using sint_lt [of m] by simp
  with assms have "- (2 ^ 63) \<le> sint f + 1" "sint f + 1 < 2 ^ 63" by linarith+
  then show ?thesis
    by (simp add: signed_take_bit_int_eq_self sint_word_ariths(1))
qed

lemma count_beat_failed:
  assumes "0 \<le> sint f" "sint f < int (fail_limit m)"
  shows "count_beat m f BeatFailed =
    (if fail_limit m \<le> Suc (nat (sint f)) then None else Some (f + 1))"
proof (cases "sint f < sint m")
  case True
  with assms(1) sint64_succ [of f m] show ?thesis
    by (auto simp: word_sle_eq fail_limit_def)
next
  case False
  with assms have "sint f = 0" by (auto simp: fail_limit_def max_def split: if_splits)
  with False have "f = 0" by (simp add: signed_eq_0_iff)
  with False show ?thesis by (auto simp: word_sle_eq fail_limit_def)
qed

lemma replicate_prefix_mono:
  "prefix (replicate m x) xs \<Longrightarrow> n \<le> m \<Longrightarrow> prefix (replicate n x) xs"
  by (metis le_add_diff_inverse prefixI prefix_order.trans replicate_add)

lemma sublist_replicate_Cons:
  "0 < m \<Longrightarrow> sublist (replicate m x) (y # xs) \<longleftrightarrow>
    (x = y \<and> prefix (replicate (m - 1) x) xs) \<or> sublist (replicate m x) xs"
  by (cases m) (auto simp: sublist_Cons_right)

lemma count_beats_limit:
  assumes "0 \<le> sint f" "sint f < int (fail_limit m)"
  shows "count_beats m f bs = None \<longleftrightarrow>
    prefix (replicate (fail_limit m - nat (sint f)) BeatFailed) (filter (\<lambda>b. b \<noteq> NotMarshalled) bs) \<or>
    sublist (replicate (fail_limit m) BeatFailed) (filter (\<lambda>b. b \<noteq> NotMarshalled) bs)"
  using assms
proof (induction bs arbitrary: f)
  case Nil
  then have "0 < fail_limit m - nat (sint f)" "0 < fail_limit m" by linarith+
  then show ?case by simp
next
  case (Cons b bs)
  let ?M = "fail_limit m" and ?bs = "filter (\<lambda>b. b \<noteq> NotMarshalled) bs"
  have M: "0 < ?M" by (simp add: fail_limit_def)
  show ?case
  proof (cases b)
    case NotMarshalled
    with Cons show ?thesis by simp
  next
    case BeatSent
    from Cons.prems have "0 < ?M - nat (sint f)" by linarith
    with BeatSent M Cons.IH [of 0] show ?thesis
      by (auto simp: sublist_replicate_Cons gr0_conv_Suc)
  next
    case BeatFailed
    from Cons.prems have d: "?M - nat (sint f) = Suc (?M - Suc (nat (sint f)))" by linarith
    show ?thesis
    proof (cases "?M \<le> Suc (nat (sint f))")
      case True
      with BeatFailed Cons.prems d show ?thesis
        by (simp add: count_beat_failed del: count_beat.simps)
    next
      case False
      then have "sint f < sint m" using Cons.prems by (auto simp: fail_limit_def)
      with sint64_succ Cons.prems have s: "sint (f + 1) = sint f + 1" by blast
      with False Cons.prems have "0 \<le> sint (f + 1)" "sint (f + 1) < int ?M" by linarith+
      with Cons.IH [of "f + 1"] s Cons.prems False BeatFailed M d show ?thesis
        by (auto simp: count_beat_failed sublist_replicate_Cons nat_add_distrib simp del: count_beat.simps
            dest: replicate_prefix_mono [where n = "?M - Suc (nat (sint f))"])
    qed
  qed
qed

section \<open>The back-off\<close>

lemma next_backoff_sint:
  assumes "0 \<le> sint b" "sint m \<le> 2 ^ 62"
  shows "sint (next_backoff m b) = (if sint b < sint m then 2 * sint b else sint b)"
proof (cases "sint b < sint m")
  case True
  with assms have "sint (b * 2) = sint b * 2"
    by (simp add: sint_word_ariths(3) signed_take_bit_int_eq_self)
  with True show ?thesis by (simp add: next_backoff_def word_sless_alt)
qed (simp add: next_backoff_def word_sless_alt)

text \<open>A client and a message format for the examples: the registry answers 1 for success.\<close>

definition sample_registry :: registry_pb where
  "sample_registry =
     \<lparr>unmarshal_registry = (\<lambda>d. if d = [] then Inl ''empty'' else Inr (Some (RM_Response
         \<lparr>Success = (d = [1]), RespMessage = (if d = [1] then ''ok'' else ''name taken'')\<rparr>))),
      marshal_registry = (\<lambda>m. case m of Some (RM_Register _) \<Rightarrow> Inr [7] | Some (RM_Heartbeat _) \<Rightarrow> Inr [8]
         | _ \<Rightarrow> Inl ''not sent'')\<rparr>"

definition sample_client :: Client where
  "sample_client = NewClient ''registry:9000'' 8080 ''gacha'' 5000000000 3 1000000000 30000000000"

section \<open>Properties\<close>

text \<open>C16. \<open>Register\<close> succeeds exactly when the register message can be marshalled, the connection
  takes its whole frame, and the first frame the registry sends is a response that says success.\<close>

theorem Register_succeeds_iff:
  "(\<exists>c' n'. Register pb (Dialed r rm) c n = Some (None, c', n')) \<longleftrightarrow>
   (\<exists>data reply rest resp. marshal_registry pb (register_message c) = Inr data \<and>
      (case rm of None \<Rightarrow> True | Some k \<Rightarrow> length (encode_frame data) \<le> k) \<and>
      frame_spec (pending r) (ending r) = Some (Inr reply, rest) \<and>
      unmarshal_registry pb reply = Inr (Some (RM_Response resp)) \<and> Success resp)"
    (is "?L \<longleftrightarrow> ?R")
proof
  assume ?L
  then obtain c' n' where "Register pb (Dialed r rm) c n = Some (None, c', n')" by blast
  then show ?R
  proof (cases rule: Register_exits)
    case (registered data w reply r' resp)
    with open_conn_write(3) [OF registered(3)] ReadFrame_reply [of r reply] show ?thesis by auto
  qed simp
next
  assume ?R
  then obtain data reply rest resp where h: "marshal_registry pb (register_message c) = Inr data"
    "case rm of None \<Rightarrow> True | Some k \<Rightarrow> length (encode_frame data) \<le> k"
    "frame_spec (pending r) (ending r) = Some (Inr reply, rest)"
    "unmarshal_registry pb reply = Inr (Some (RM_Response resp))" "Success resp" by blast
  obtain e w where w: "WriteFrame conn_write data \<lparr>sent = [], room = rm, closed = False\<rparr> = (e, w)"
    by fastforce
  with h(2) open_conn_write(3) have "e = None" by blast
  moreover obtain r' where "ReadFrame conn_read r = Some (Inr reply, r')"
    using h(3) ReadFrame_reply by blast
  ultimately show ?L using h w by (simp add: Register_fresh)
qed

text \<open>C17. Every way out of \<open>Register\<close>: a failed dial changes nothing; any later failure leaves the
  client without a connection and the new connection closed; after a success the client holds the
  new connection, open, with exactly the register frame written to it. The connections made before
  are untouched in every case.\<close>

theorem Register_every_exit:
  assumes "Register pb d c n = Some (e, c', n')"
  shows "(\<exists>x. e = Some (ConnectFailed x)) \<and> c' = c \<and> n' = n \<or>
    e \<noteq> None \<and> c' = c\<lparr>conn := None\<rparr> \<and> (\<exists>k. n' = n @ [k] \<and> \<not> is_open k) \<or>
    e = None \<and> c' = c\<lparr>conn := Some (length n)\<rparr> \<and> (\<exists>k data. n' = n @ [k] \<and> is_open k \<and>
      marshal_registry pb (register_message c) = Inr data \<and> sent (nc_out k) = encode_frame data)"
proof (cases d)
  case (DialError x)
  with assms show ?thesis by (auto simp: Register_def)
next
  case (Dialed r rm)
  from assms [unfolded Dialed] show ?thesis
  proof (cases rule: Register_exits)
    case (failed k)
    then show ?thesis by (auto simp: dropped_conn_def)
  next
    case (registered data w reply r' resp)
    with open_conn_write(1,2) [OF registered(3)] show ?thesis
      by (auto simp: fresh_conn_def is_open_def)
  qed
qed

theorem Register_every_exit_witness:
  "Register sample_registry (Dialed (reader_of [[0,0,0,1,0]] None) None) sample_client [] =
     Some (Some (RegistrationFailed ''name taken''), sample_client,
       [\<lparr>nc_in = reader_of [] (Some ErrClosed), nc_out = \<lparr>sent = [0,0,0,1,7], room = None, closed = True\<rparr>\<rparr>]) \<and>
   sample_client = sample_client\<lparr>conn := None\<rparr>"
proof -
  have "Register sample_registry (Dialed (reader_of [[0,0,0,1,0]] None) None) sample_client [] =
     Some (Some (RegistrationFailed ''name taken''), sample_client,
       [\<lparr>nc_in = reader_of [] (Some ErrClosed), nc_out = \<lparr>sent = [0,0,0,1,7], room = None, closed = True\<rparr>\<rparr>])"
    by code_simp
  from Register_every_exit [OF this] this show ?thesis by simp
qed

text \<open>C21. The heartbeat loop gives up exactly when the configured number of writes (at least one)
  failed in a row; heartbeats that could not be marshalled neither count nor reset the count.\<close>

theorem heartbeats_give_up_iff:
  "count_beats maxFail 0 bs = None \<longleftrightarrow>
   sublist (replicate (fail_limit maxFail) BeatFailed) (filter (\<lambda>b. b \<noteq> NotMarshalled) bs)"
proof -
  have "0 < fail_limit maxFail" by (simp add: fail_limit_def)
  then show ?thesis using count_beats_limit [of 0 maxFail bs] by auto
qed

text \<open>The back-off after \<open>k\<close> failed attempts: it doubles until it is at least the maximum and
  then stays; it is never capped to the maximum, so the last doubling may exceed it (5 doublings
  take 1s to 32s, beyond a maximum of 30s).\<close>

lemma backoff_schedule:
  assumes "0 \<le> sint b" "sint maxBackoff \<le> 2 ^ 62"
    and "\<forall>i<j. sint b * 2 ^ i < sint maxBackoff" "sint maxBackoff \<le> sint b * 2 ^ j"
  shows "sint ((next_backoff maxBackoff ^^ k) b) = sint b * 2 ^ min k j"
proof (induction k)
  case 0
  show ?case by simp
next
  case (Suc k)
  have "0 \<le> sint b * 2 ^ min k j" using assms(1) by simp
  with Suc have "sint ((next_backoff maxBackoff ^^ Suc k) b) =
      (if sint b * 2 ^ min k j < sint maxBackoff then 2 * (sint b * 2 ^ min k j) else sint b * 2 ^ min k j)"
    using next_backoff_sint [of "(next_backoff maxBackoff ^^ k) b" maxBackoff] assms(2) by simp
  also have "\<dots> = sint b * 2 ^ min (Suc k) j"
    using assms by (cases "k < j") (auto simp: min_def)
  finally show ?case .
qed

lemma backoff_schedule_witness:
  "\<forall>k. sint ((next_backoff 30000000000 ^^ k) 1000000000) = 1000000000 * 2 ^ min k 5"
  using backoff_schedule [of 1000000000 30000000000 5] by (simp add: numeral_eq_Suc All_less_Suc)

end
