(* ===== verification/Registry_Run.thy ===== *)
theory Registry_Run
  imports Registry_Client
begin

text \<open>
  \<open>Run\<close> of the registry client, \<open>internal/registry/client.go\<close>: registration, the heartbeat loop,
  the reader goroutine, reconnection, shutdown.

  \<open>Run\<close> and the reader goroutine it starts, the goroutine that calls \<open>Stop\<close> and the
  cancellation of the context run concurrently. \<open>run_step\<close>, \<open>reader_step\<close> and
  \<open>stop_step\<close> let one of them run up to its next interaction with the others; \<open>sys_step\<close> is
  any of these steps. A frame is written in one step: \<open>Stop\<close> closes the connection before or after
  it, not between its header and its body.

  The lemmas are invariants of \<open>sys_step\<close>: what may be on the wire of each connection, where the
  connection pointer points, how long \<open>Run\<close> sleeps, and what is left to happen after \<open>Stop\<close>. A
  connection is open until the client's code closes it: that the Go runtime may close the descriptor of
  a connection nothing refers to any more, at a garbage collection, is not modelled.
\<close>

section \<open>Run and its reader\<close>

datatype run_pc =
    AtTop | Dialing | Sending | Receiving | RegFailed | Beating int64 | Joining | ConnLost
  | Returned | Panicked

datatype reader_pc = NoReader | ReaderTop | ReaderWaits | ReaderDone

datatype stop_pc = NotStopping | ClosingConn | StopDone

text \<open>The last field records how long \<open>Run\<close> has slept, for the theorems only.\<close>

record reg_sys =
  client :: Client
  net :: net
  backoff :: int64
  run_pc :: run_pc
  reader_pc :: reader_pc
  reader_cancelled :: bool
  ctx_done :: bool
  stop_pc :: stop_pc
  slept :: "int64 list"

definition start_run :: "Client \<Rightarrow> net \<Rightarrow> reg_sys" where
  "start_run c n = \<lparr>client = c, net = n, backoff = reconnectBackoff c, run_pc = AtTop,
     reader_pc = NoReader, reader_cancelled = False, ctx_done = False, stop_pc = NotStopping, slept = []\<rparr>"

definition stopping :: "reg_sys \<Rightarrow> bool" where
  "stopping s \<longleftrightarrow> ctx_done s \<or> stopCh (client s)"

text \<open>\<open>time.Sleep(backoff)\<close> and the doubling after it.\<close>

definition sleep_backoff :: "reg_sys \<Rightarrow> reg_sys" where
  "sleep_backoff s = s\<lparr>slept := slept s @ [backoff s],
     backoff := next_backoff (reconnectMaxBackoff (client s)) (backoff s), run_pc := AtTop\<rparr>"

text \<open>
  After a successful registration: reset the back-off, start the reader and the heartbeat ticker.
  \<open>time.NewTicker\<close> panics when the interval is not positive.
\<close>

definition begin_session :: "reg_sys \<Rightarrow> reg_sys" where
  "begin_session s = s\<lparr>backoff := reconnectBackoff (client s), reader_pc := ReaderTop,
     reader_cancelled := False,
     run_pc := (if heartbeatInterval (client s) \<le>s 0 then Panicked else Beating 0)\<rparr>"

datatype choice = Dial dial | Tick | Leave

definition finish_reg :: "reg_error option \<times> Client \<times> net \<Rightarrow> run_pc \<Rightarrow> reg_sys \<Rightarrow> reg_sys" where
  "finish_reg r pc s =
     (case r of (e, c, n) \<Rightarrow> s\<lparr>client := c, net := n, run_pc := (if e = None then pc else RegFailed)\<rparr>)"

definition beat_step :: "registry_pb \<Rightarrow> int64 \<Rightarrow> reg_sys \<Rightarrow> reg_sys" where
  "beat_step pb f s =
     (let (b, n) = send_heartbeat pb (client s) (net s); s1 = s\<lparr>net := n\<rparr> in
      case count_beat (heartbeatMaxFail (client s)) f b of
        None \<Rightarrow> s1\<lparr>run_pc := Joining, reader_cancelled := True\<rparr>
      | Some f' \<Rightarrow> s1\<lparr>run_pc := Beating f'\<rparr>)"

text \<open>
  One step of \<open>Run\<close>. The choice is the environment's: the answer of a dial, or which ready case
  the \<open>select\<close> of \<open>heartbeatLoop\<close> takes.
\<close>

fun run_step :: "registry_pb \<Rightarrow> choice \<Rightarrow> reg_sys \<Rightarrow> reg_sys option" where
  "run_step pb ch s =
     (case run_pc s of
        AtTop \<Rightarrow> Some (s\<lparr>run_pc := (if stopping s then Returned else Dialing)\<rparr>)
      | Dialing \<Rightarrow>
          (case ch of
             Dial d \<Rightarrow> Some (finish_reg (reg_dial d (client s) (net s)) Sending s)
           | _ \<Rightarrow> None)
      | Sending \<Rightarrow> Some (finish_reg (reg_send pb (client s) (net s)) Receiving s)
      | Receiving \<Rightarrow>
          (case reg_recv pb (client s) (net s) of
             None \<Rightarrow> None
           | Some (Some e, c, n) \<Rightarrow> Some (s\<lparr>client := c, net := n, run_pc := RegFailed\<rparr>)
           | Some (None, c, n) \<Rightarrow> Some (begin_session (s\<lparr>client := c, net := n\<rparr>)))
      | RegFailed \<Rightarrow> Some (if stopping s then s\<lparr>run_pc := Returned\<rparr> else sleep_backoff s)
      | Beating f \<Rightarrow>
          (case ch of
             Tick \<Rightarrow> Some (beat_step pb f s)
           | Leave \<Rightarrow> if stopping s then Some (s\<lparr>run_pc := Joining, reader_cancelled := True\<rparr>) else None
           | _ \<Rightarrow> None)
      | Joining \<Rightarrow> if reader_pc s = ReaderDone then Some (s\<lparr>run_pc := ConnLost\<rparr>) else None
      | ConnLost \<Rightarrow> Some (if stopping s then s\<lparr>run_pc := Returned\<rparr> else sleep_backoff s)
      | Returned \<Rightarrow> None
      | Panicked \<Rightarrow> None)"

text \<open>One step of \<open>readLoop\<close>: the check at the top of the loop, or one frame.\<close>

definition read_one :: "registry_pb \<Rightarrow> reg_sys \<Rightarrow> reg_sys option" where
  "read_one pb s =
     (case readFrame (client s) (net s) of
        None \<Rightarrow> None
      | Some (Inl e, n) \<Rightarrow> Some (s\<lparr>net := n, reader_pc := ReaderDone\<rparr>)
      | Some (Inr data, n) \<Rightarrow>
          (case unmarshal_registry pb data of
             Inl _ \<Rightarrow> Some (s\<lparr>net := n, reader_pc := ReaderTop\<rparr>)
           | Inr (Some (RM_Response r)) \<Rightarrow>
               if Success r then Some (s\<lparr>net := n, reader_pc := ReaderTop\<rparr>)
               else (case closeConn (client s) n of
                   (c, n1) \<Rightarrow> Some (s\<lparr>client := c, net := n1, reader_pc := ReaderDone\<rparr>))
           | Inr _ \<Rightarrow> Some (s\<lparr>net := n, reader_pc := ReaderTop\<rparr>)))"

fun reader_step :: "registry_pb \<Rightarrow> reg_sys \<Rightarrow> reg_sys option" where
  "reader_step pb s =
     (case reader_pc s of
        ReaderTop \<Rightarrow>
          Some (s\<lparr>reader_pc := (if stopping s \<or> reader_cancelled s then ReaderDone else ReaderWaits)\<rparr>)
      | ReaderWaits \<Rightarrow> read_one pb s
      | _ \<Rightarrow> None)"

text \<open>\<open>Stop\<close>: first the channel is closed, then the connection.\<close>

fun stop_step :: "reg_sys \<Rightarrow> reg_sys option" where
  "stop_step s =
     (case stop_pc s of
        NotStopping \<Rightarrow> Some (s\<lparr>client := (client s)\<lparr>stopCh := True\<rparr>, stop_pc := ClosingConn\<rparr>)
      | ClosingConn \<Rightarrow>
          (case closeConn (client s) (net s) of
             (c, n) \<Rightarrow> Some (s\<lparr>client := c, net := n, stop_pc := StopDone\<rparr>))
      | StopDone \<Rightarrow> None)"

declare run_step.simps [simp del] reader_step.simps [simp del] stop_step.simps [simp del]

text \<open>A step of \<open>Run\<close>, of the reader, of \<open>Stop\<close>, unfolded, and the case splits this needs.\<close>

lemmas run_defs [reg_simps] = run_step.simps finish_reg_def begin_session_def beat_step_def sleep_backoff_def Let_def

lemmas run_splits = run_pc.splits choice.splits option.splits prod.splits if_splits

lemmas read_defs = reader_step.simps read_one_def

lemmas read_splits = reader_pc.splits option.splits prod.splits sum.splits RegistryPayload.splits if_splits

lemmas stop_splits = stop_pc.splits prod.splits

text \<open>Any of the goroutines steps; a panic in \<open>Run\<close> ends the process.\<close>

inductive sys_step :: "registry_pb \<Rightarrow> reg_sys \<Rightarrow> reg_sys \<Rightarrow> bool" for pb where
  run: "run_step pb ch s = Some t \<Longrightarrow> sys_step pb s t"
| read: "run_pc s \<noteq> Panicked \<Longrightarrow> reader_step pb s = Some t \<Longrightarrow> sys_step pb s t"
| stop: "run_pc s \<noteq> Panicked \<Longrightarrow> stop_step s = Some t \<Longrightarrow> sys_step pb s t"
| cancel: "run_pc s \<noteq> Panicked \<Longrightarrow> sys_step pb s (s\<lparr>ctx_done := True\<rparr>)"

abbreviation sys_reach :: "registry_pb \<Rightarrow> reg_sys \<Rightarrow> reg_sys \<Rightarrow> bool" where
  "sys_reach pb \<equiv> (sys_step pb)\<^sup>*\<^sup>*"

section \<open>Step cases\<close>

lemma stopping_simps [simp]:
  "stopping (s\<lparr>run_pc := pc\<rparr>) = stopping s" "stopping (s\<lparr>net := n\<rparr>) = stopping s"
  "stopping (s\<lparr>reader_pc := rp\<rparr>) = stopping s"
  by (simp_all add: stopping_def)

text \<open>
  What a step does to the client and its connections: it opens one (only \<open>Run\<close> while dialing), or it
  works on the current one.
\<close>

definition opens_conn :: "reg_sys \<Rightarrow> reg_sys \<Rightarrow> bool" where
  "opens_conn s t \<longleftrightarrow> run_pc s = Dialing \<and> run_pc t = Sending \<and>
     client t = (client s)\<lparr>conn := Some (length (net s))\<rparr> \<and>
     (\<exists>r rm. net t = net s @ [\<lparr>nc_in = r, nc_out = \<lparr>sent = [], room = rm, closed = False\<rparr>\<rparr>])"

definition stays_on_conn :: "reg_sys \<Rightarrow> reg_sys \<Rightarrow> bool" where
  "stays_on_conn s t \<longleftrightarrow> on_current (client s) (net s) (client t) (net t) \<and>
     (stopCh (client s) \<longrightarrow> stopCh (client t))"

lemma on_current_stopCh [simp]: "on_current c n (c\<lparr>stopCh := b\<rparr>) n"
  by (simp add: on_current_def same_identity_def)

lemma sleep_backoff_simps [simp]:
  "client (sleep_backoff s) = client s" "net (sleep_backoff s) = net s" "run_pc (sleep_backoff s) = AtTop"
  by (simp_all add: sleep_backoff_def)

lemma begin_session_simps [simp]:
  "client (begin_session s) = client s" "net (begin_session s) = net s"
  by (simp_all add: begin_session_def)

lemma beat_step_current: "stays_on_conn s (beat_step pb f s)"
  using send_heartbeat_current [of pb "client s" "net s"]
  by (auto simp: beat_step_def stays_on_conn_def Let_def split: prod.splits option.splits)

lemma run_step_current:
  assumes "run_step pb ch s = Some t"
  shows "opens_conn s t \<or> stays_on_conn s t"
proof (cases "run_pc s")
  case Dialing
  with assms obtain d where "ch = Dial d" by (auto simp: run_step.simps split: choice.splits)
  with assms Dialing show ?thesis
    by (cases d) (auto simp: run_step.simps finish_reg_def opens_conn_def stays_on_conn_def)
next
  case Sending
  with assms show ?thesis
    by (auto simp: run_step.simps finish_reg_def stays_on_conn_def dest: reg_send_current split: prod.splits)
next
  case Receiving
  with assms show ?thesis
    by (auto simp: run_step.simps stays_on_conn_def dest: reg_recv_current split: prod.splits option.splits)
next
  case (Beating f)
  with assms show ?thesis
    by (auto simp: run_step.simps stays_on_conn_def beat_step_current [unfolded stays_on_conn_def]
        split: choice.splits if_splits)
qed (use assms in \<open>auto simp: run_step.simps stays_on_conn_def split: if_splits\<close>)

lemma reader_step_current: "reader_step pb s = Some t \<Longrightarrow> stays_on_conn s t"
  by (auto simp: read_defs stays_on_conn_def dest!: readFrame_current closeConn_current
      intro: on_current_trans
      split: read_splits)

lemma stop_step_current: "stop_step s = Some t \<Longrightarrow> stays_on_conn s t"
  by (auto simp: stop_step.simps stays_on_conn_def dest!: closeConn_current split: stop_splits)

lemma sys_step_current: "sys_step pb s t \<Longrightarrow> opens_conn s t \<or> stays_on_conn s t"
  by (induction rule: sys_step.induct)
    (auto dest: run_step_current reader_step_current stop_step_current simp: stays_on_conn_def [of _ "_\<lparr>ctx_done := True\<rparr>"])

section \<open>What is on the wire\<close>

definition reg_frame :: "registry_pb \<Rightarrow> Client \<Rightarrow> bytes" where
  "reg_frame pb c = (case marshal_registry pb (register_message c) of Inl _ \<Rightarrow> [] | Inr d \<Rightarrow> encode_frame d)"

definition hb_frame :: "registry_pb \<Rightarrow> Client \<Rightarrow> bytes" where
  "hb_frame pb c = (case marshal_registry pb (heartbeat_message c) of Inl _ \<Rightarrow> [] | Inr d \<Rightarrow> encode_frame d)"

text \<open>One registration, then \<open>m\<close> heartbeats.\<close>

definition session_bytes :: "registry_pb \<Rightarrow> Client \<Rightarrow> nat \<Rightarrow> bytes" where
  "session_bytes pb c m = reg_frame pb c @ concat (replicate m (hb_frame pb c))"

definition wire_ok :: "registry_pb \<Rightarrow> Client \<Rightarrow> net_conn \<Rightarrow> bool" where
  "wire_ok pb c k \<longleftrightarrow> (\<exists>m. prefix (sent (nc_out k)) (session_bytes pb c m))"

definition session_ok :: "registry_pb \<Rightarrow> Client \<Rightarrow> net_conn \<Rightarrow> bool" where
  "session_ok pb c k \<longleftrightarrow> write_dead (nc_out k) \<or> (\<exists>m. sent (nc_out k) = session_bytes pb c m)"

definition in_session :: "run_pc \<Rightarrow> bool" where
  "in_session pc \<longleftrightarrow> pc = Receiving \<or> (\<exists>f. pc = Beating f)"

definition conn_wire_inv :: "registry_pb \<Rightarrow> run_pc \<Rightarrow> Client \<Rightarrow> net \<Rightarrow> bool" where
  "conn_wire_inv pb pc c n \<longleftrightarrow> (\<forall>j < length n. wire_ok pb c (n ! j)) \<and>
     (\<forall>k. conn c = Some k \<longrightarrow> k < length n \<and> (pc = Sending \<longrightarrow> sent (nc_out (n ! k)) = []) \<and>
        (in_session pc \<longrightarrow> session_ok pb c (n ! k)))"

definition reg_wire_inv :: "registry_pb \<Rightarrow> reg_sys \<Rightarrow> bool" where
  "reg_wire_inv pb s \<longleftrightarrow> conn_wire_inv pb (run_pc s) (client s) (net s)"

lemma session_bytes_Suc: "session_bytes pb c (Suc m) = session_bytes pb c m @ hb_frame pb c"
proof -
  have "concat (replicate (Suc m) xs) = concat (replicate m xs) @ xs" for xs :: bytes
    by (induction m) auto
  then show ?thesis by (simp add: session_bytes_def)
qed

lemma session_bytes_prefix [simp]: "prefix (reg_frame pb c) (session_bytes pb c m)"
  by (simp add: session_bytes_def)

lemma heartbeat_wire:
  assumes "wire_ok pb c k" "session_ok pb c k" "hb_frame pb c = encode_frame d"
    and "WriteFrame conn_write d (nc_out k) = (e, w)"
  shows "wire_ok pb c (k\<lparr>nc_out := w\<rparr>) \<and> session_ok pb c (k\<lparr>nc_out := w\<rparr>)"
proof (cases "write_dead (nc_out k)")
  case True
  with WriteFrame_cases [OF assms(4)] assms(1) show ?thesis
    by (auto simp: wire_ok_def session_ok_def)
next
  case False
  with assms(2) obtain m where m: "sent (nc_out k) = session_bytes pb c m" by (auto simp: session_ok_def)
  from WriteFrame_cases [OF assms(4)] show ?thesis
  proof
    assume "e = None \<and> sent w = sent (nc_out k) @ encode_frame d \<and> \<not> write_dead (nc_out k)"
    then have "sent w = session_bytes pb c (Suc m)" by (simp add: session_bytes_Suc m assms(3))
    then show ?thesis by (auto simp: wire_ok_def session_ok_def)
  next
    assume "e \<noteq> None \<and> write_dead w \<and>
      (\<exists>q. prefix q (encode_frame d) \<and> sent w = sent (nc_out k) @ q \<and> (write_dead (nc_out k) \<longrightarrow> q = []))"
    then have "write_dead w" "prefix (sent w) (session_bytes pb c (Suc m))"
      by (auto simp: session_bytes_Suc m assms(3))
    then show ?thesis by (auto simp: wire_ok_def session_ok_def)
  qed
qed

lemma register_wire:
  assumes "sent (nc_out k) = []" "reg_frame pb c = encode_frame d"
    and "WriteFrame conn_write d (nc_out k) = (e, w)"
  shows "wire_ok pb c (k\<lparr>nc_out := w\<rparr>) \<and> session_ok pb c (k\<lparr>nc_out := w\<rparr>)"
proof -
  have full: "session_bytes pb c 0 = encode_frame d" by (simp add: session_bytes_def assms(2))
  from WriteFrame_cases [OF assms(3)] assms(1) full [symmetric] show ?thesis
    by (auto simp: wire_ok_def session_ok_def)
qed

text \<open>Steps that write nothing.\<close>

definition quiet :: "net \<Rightarrow> net \<Rightarrow> bool" where
  "quiet n n' \<longleftrightarrow> length n' = length n \<and>
     (\<forall>j < length n. sent (nc_out (n' ! j)) = sent (nc_out (n ! j)) \<and>
        (write_dead (nc_out (n ! j)) \<longrightarrow> write_dead (nc_out (n' ! j))))"

lemma quiet_refl [simp]: "quiet n n"
  by (simp add: quiet_def)

lemma quiet_trans: "quiet a b \<Longrightarrow> quiet b c \<Longrightarrow> quiet a c"
  by (auto simp: quiet_def)

lemma closeConn_quiet: "closeConn c n = (c', n') \<Longrightarrow> quiet n n'"
  by (auto simp: closeConn_def quiet_def close_net_conn_def write_dead_def nth_update_at
      split: option.splits)

lemma readFrame_quiet: "readFrame c n = Some (res, n') \<Longrightarrow> quiet n n'"
  by (auto simp: readFrame_def quiet_def nth_update_at split: option.splits)

lemma reg_recv_quiet: "reg_recv pb c n = Some (e, c', n') \<Longrightarrow> quiet n n'"
  by (auto simp: reg_recv_def dest!: readFrame_quiet closeConn_quiet intro: quiet_trans
      split: sum.splits option.splits prod.splits)

lemma same_identity_frames:
  assumes "same_identity c c'"
  shows "wire_ok pb c' = wire_ok pb c" "session_ok pb c' = session_ok pb c"
proof -
  have "selfPort c' = selfPort c" "serviceName c' = serviceName c"
    using assms unfolding same_identity_def by (metis Client.select_convs Client.surjective Client.update_convs)+
  then have "register_message c' = register_message c" "heartbeat_message c' = heartbeat_message c"
    by (simp_all add: register_message_def heartbeat_message_def)
  then have "session_bytes pb c' = session_bytes pb c"
    by (simp add: session_bytes_def reg_frame_def hb_frame_def fun_eq_iff)
  then show "wire_ok pb c' = wire_ok pb c" "session_ok pb c' = session_ok pb c"
    by (simp_all add: wire_ok_def session_ok_def fun_eq_iff)
qed

lemma conn_wire_quiet:
  assumes "conn_wire_inv pb pc c n" "quiet n n'" "on_current c n c' n'"
    and "pc' = Sending \<Longrightarrow> pc = Sending" "in_session pc' \<Longrightarrow> in_session pc"
  shows "conn_wire_inv pb pc' c' n'"
proof -
  have id: "same_identity c c'" and cn: "conn c' = conn c \<or> conn c' = None" and len: "length n' = length n"
    using assms(3) by (auto simp: on_current_def)
  show ?thesis
    using assms(1,2,4,5) cn len
    unfolding conn_wire_inv_def same_identity_frames [OF id] wire_ok_def session_ok_def quiet_def
    by auto
qed

lemma conn_wire_send:
  assumes "conn_wire_inv pb Sending c n" "reg_send pb c n = (e, c', n')"
  shows "conn_wire_inv pb (if e = None then Receiving else RegFailed) c' n'"
proof (cases "marshal_registry pb (register_message c)")
  case (Inl x)
  with assms closeConn_quiet [of c n c' n'] closeConn_current [of c n c' n'] show ?thesis
    by (auto simp: reg_send_def in_session_def intro: conn_wire_quiet)
next
  case (Inr d)
  obtain e1 n1 where w: "writeFrame d c n = (e1, n1)" by fastforce
  have "reg_frame pb c = encode_frame d" by (simp add: reg_frame_def Inr)
  then have inv: "conn_wire_inv pb (if e1 = None then Receiving else RegFailed) c n1"
    using assms(1) w register_wire [of "n ! the (conn c)" pb c d]
    by (auto simp: conn_wire_inv_def writeFrame_def nth_list_update in_session_def
        split: option.splits prod.splits)
  show ?thesis
  proof (cases e1)
    case None
    with assms(2) w Inr inv show ?thesis by (simp add: reg_send_def)
  next
    case (Some x)
    with assms(2) w Inr have "closeConn c n1 = (c', n')" "e \<noteq> None" by (auto simp: reg_send_def)
    with Some inv closeConn_quiet closeConn_current show ?thesis
      by (auto simp: in_session_def intro: conn_wire_quiet)
  qed
qed

lemma conn_wire_beat:
  assumes "conn_wire_inv pb pc c n" "in_session pc" "send_heartbeat pb c n = (b, n')" "pc' \<noteq> Sending"
  shows "conn_wire_inv pb pc' c n'"
proof (cases "marshal_registry pb (heartbeat_message c)")
  case (Inl x)
  with assms show ?thesis by (auto simp: send_heartbeat_def conn_wire_inv_def)
next
  case (Inr d)
  with assms(3) obtain e where w: "writeFrame d c n = (e, n')"
    by (auto simp: send_heartbeat_def split: prod.splits option.splits)
  have "hb_frame pb c = encode_frame d" by (simp add: hb_frame_def Inr)
  then show ?thesis
    using assms(1,2,4) w heartbeat_wire [of pb c "n ! the (conn c)" d]
    by (auto simp: conn_wire_inv_def writeFrame_def nth_list_update split: option.splits prod.splits)
qed

lemma conn_wire_open:
  assumes "conn_wire_inv pb Dialing c n" "nc_out k = \<lparr>sent = [], room = rm, closed = False\<rparr>"
  shows "conn_wire_inv pb Sending (c\<lparr>conn := Some (length n)\<rparr>) (n @ [k])"
proof -
  have "same_identity c (c\<lparr>conn := Some (length n)\<rparr>)" by (simp add: same_identity_def)
  from same_identity_frames [OF this] assms show ?thesis
    by (auto simp: conn_wire_inv_def nth_append in_session_def wire_ok_def less_Suc_eq)
qed

lemma conn_wire_pc:
  "conn_wire_inv pb pc c n \<Longrightarrow> pc' \<noteq> Sending \<Longrightarrow> \<not> in_session pc' \<Longrightarrow> conn_wire_inv pb pc' c n"
  by (auto simp: conn_wire_inv_def)

lemma run_step_wire:
  assumes "reg_wire_inv pb s" "run_step pb ch s = Some t"
  shows "reg_wire_inv pb t"
proof (cases "run_pc s")
  case Dialing
  with assms(2) obtain d where "ch = Dial d" by (auto simp: run_step.simps split: choice.splits)
  with assms Dialing conn_wire_open conn_wire_pc [of pb Dialing "client s" "net s" RegFailed]
  show ?thesis
    by (cases d) (auto simp: run_step.simps finish_reg_def reg_wire_inv_def in_session_def)
next
  case Sending
  with assms conn_wire_send [of pb "client s" "net s"] show ?thesis
    by (auto simp: run_step.simps finish_reg_def reg_wire_inv_def split: prod.splits)
next
  case Receiving
  have "conn_wire_inv pb pc c n"
    if "reg_recv pb (client s) (net s) = Some (e, c, n)" "pc \<noteq> Sending" for e c n pc
    using assms(1) that reg_recv_quiet reg_recv_current Receiving
    by (auto simp: reg_wire_inv_def in_session_def intro: conn_wire_quiet)
  with assms(2) Receiving show ?thesis
    by (auto simp: run_step.simps reg_wire_inv_def begin_session_def split: prod.splits option.splits)
next
  case (Beating f)
  with assms conn_wire_beat [of pb "Beating f" "client s" "net s"]
    conn_wire_pc [of pb "Beating f" "client s" "net s" Joining] show ?thesis
    by (auto simp: run_step.simps reg_wire_inv_def beat_step_def in_session_def Let_def
        split: choice.splits prod.splits option.splits if_splits)
qed (use assms in \<open>auto simp: run_step.simps reg_wire_inv_def in_session_def
    intro: conn_wire_pc split: if_splits\<close>)

lemma reader_step_quiet:
  "reader_step pb s = Some t \<Longrightarrow> quiet (net s) (net t) \<and> run_pc t = run_pc s"
  by (auto simp: read_defs dest!: readFrame_quiet closeConn_quiet intro: quiet_trans
      split: read_splits)

lemma stop_step_quiet: "stop_step s = Some t \<Longrightarrow> quiet (net s) (net t) \<and> run_pc t = run_pc s"
  by (auto simp: stop_step.simps dest: closeConn_quiet split: stop_splits)

interpretation reg_wire: invariant_of "sys_step pb" "reg_wire_inv pb" for pb
proof unfold_locales
  fix s t assume inv: "reg_wire_inv pb s" and "sys_step pb s t"
  from this(2) show "reg_wire_inv pb t"
  proof cases
    case (run ch)
    with inv run_step_wire show ?thesis by blast
  next
    case read
    with reader_step_quiet reader_step_current inv show ?thesis
      unfolding reg_wire_inv_def stays_on_conn_def by (metis conn_wire_quiet)
  next
    case stop
    with stop_step_quiet stop_step_current inv show ?thesis
      unfolding reg_wire_inv_def stays_on_conn_def by (metis conn_wire_quiet)
  next
    case cancel
    with inv show ?thesis by (simp add: reg_wire_inv_def)
  qed
qed

section \<open>Where the pointer points\<close>

text \<open>The client's connection is the newest one and open; every other connection is forgotten.\<close>

definition pointer_ok :: "Client \<Rightarrow> net \<Rightarrow> bool" where
  "pointer_ok c n \<longleftrightarrow> (\<forall>k. conn c = Some k \<longrightarrow> Suc k = length n \<and> is_open (n ! k))"

lemma pointer_ok_current: "pointer_ok c n \<Longrightarrow> on_current c n c' n' \<Longrightarrow> pointer_ok c' n'"
  by (auto simp: pointer_ok_def on_current_def)

lemma pointer_ok_opens: "opens_conn s t \<Longrightarrow> pointer_ok (client t) (net t)"
  by (auto simp: pointer_ok_def opens_conn_def is_open_def)

interpretation reg_pointer: invariant_of "sys_step pb" "\<lambda>s. pointer_ok (client s) (net s)" for pb
  by unfold_locales
    (use sys_step_current pointer_ok_current pointer_ok_opens stays_on_conn_def in blast)

text \<open>A connection the client does not point to stays as it is.\<close>

interpretation reg_forgotten: invariant_of "sys_step pb"
  "\<lambda>s. k < length (net s) \<and> conn (client s) \<noteq> Some k \<and> net s ! k = v" for pb k v
proof unfold_locales
  fix s t
  assume inv: "k < length (net s) \<and> conn (client s) \<noteq> Some k \<and> net s ! k = v" and "sys_step pb s t"
  with sys_step_current consider "opens_conn s t" | "stays_on_conn s t" by blast
  then show "k < length (net t) \<and> conn (client t) \<noteq> Some k \<and> net t ! k = v"
    by cases (use inv in \<open>auto simp: opens_conn_def stays_on_conn_def on_current_def nth_append\<close>)
qed

section \<open>Shutdown\<close>

lemma run_step_stopping: "run_step pb ch s = Some t \<Longrightarrow> stopping s \<Longrightarrow> run_pc t \<noteq> Dialing"
  by (auto simp: reg_simps
      split: run_splits)

lemma sys_step_not_dialing:
  assumes "sys_step pb s t" "stopping s" "run_pc s \<noteq> Dialing"
  shows "run_pc t \<noteq> Dialing"
  using assms
proof cases
  case (run ch)
  then show ?thesis using run_step_stopping assms by blast
qed (use assms reader_step_quiet stop_step_quiet in auto)

text \<open>After \<open>Stop\<close> has cleared the connection.\<close>

definition stopped_at :: "net \<Rightarrow> reg_sys \<Rightarrow> bool" where
  "stopped_at n s \<longleftrightarrow> stopCh (client s) \<and> conn (client s) = None \<and> run_pc s \<noteq> Dialing \<and> net s = n"

lemma on_current_None: "on_current c n c' n' \<Longrightarrow> conn c = None \<Longrightarrow> n' = n \<and> conn c' = None"
  by (auto simp: on_current_def intro: nth_equalityI)

interpretation reg_stopped: invariant_of "sys_step pb" "stopped_at n" for pb n
proof unfold_locales
  fix s t assume inv: "stopped_at n s" and st: "sys_step pb s t"
  then have "stays_on_conn s t" using sys_step_current by (auto simp: stopped_at_def opens_conn_def)
  with inv on_current_None sys_step_not_dialing [OF st] show "stopped_at n t"
    by (auto simp: stopped_at_def stays_on_conn_def stopping_def)
qed

text \<open>\<open>Run\<close> waits only for a reader it has started.\<close>

definition reader_started :: "reg_sys \<Rightarrow> bool" where
  "reader_started s \<longleftrightarrow> reader_pc s = NoReader \<longrightarrow> run_pc s \<noteq> Joining \<and> (\<forall>f. run_pc s \<noteq> Beating f)"

interpretation reg_reader: invariant_of "sys_step pb" reader_started for pb
proof unfold_locales
  fix s t assume inv: "reader_started s" and "sys_step pb s t"
  from this(2) show "reader_started t"
  proof cases
    case (run ch)
    then show ?thesis using inv
      by (auto simp: reader_started_def reg_simps
          split: run_splits)
  next
    case read
    then show ?thesis using inv reader_step_quiet [OF read(2)]
      by (auto simp: reader_started_def read_defs
          split: read_splits)
  next
    case stop
    then show ?thesis using inv stop_step_quiet [OF stop(2)]
      by (auto simp: reader_started_def stop_step.simps split: stop_splits)
  qed (use inv in \<open>auto simp: reader_started_def\<close>)
qed

fun run_left :: "run_pc \<Rightarrow> nat" where
  "run_left Sending = 9" | "run_left Receiving = 8" | "run_left (Beating f) = 7" | "run_left Joining = 3"
| "run_left Returned = 0" | "run_left Panicked = 0" | "run_left _ = 2"

fun reader_left :: "reader_pc \<Rightarrow> nat" where
  "reader_left ReaderTop = 2" | "reader_left ReaderWaits = 1" | "reader_left _ = 0"

lemma closeConn_None [simp]: "conn c = None \<Longrightarrow> closeConn c n = (c, n)"
  by (simp add: closeConn_def)

lemma stopped_progress:
  assumes "stopped_at n s" "reader_started s" "run_pc s \<notin> {Returned, Panicked}"
  shows "\<exists>t. sys_step pb s t \<and>
    run_left (run_pc t) + reader_left (reader_pc t) < run_left (run_pc s) + reader_left (reader_pc s)"
proof -
  from assms(1) have c: "conn (client s) = None" and st: "stopping s" and d: "run_pc s \<noteq> Dialing"
    by (auto simp: stopped_at_def stopping_def)
  show ?thesis
  proof (cases "run_pc s")
    case Sending
    have "\<exists>t. run_step pb Tick s = Some t \<and> run_pc t = RegFailed \<and> reader_pc t = reader_pc s"
      by (auto simp: run_step.simps Sending reg_send_def writeFrame_def c finish_reg_def split: sum.splits)
    with Sending show ?thesis by (force intro: sys_step.run)
  next
    case Receiving
    have "\<exists>t. run_step pb Tick s = Some t \<and> run_pc t = RegFailed \<and> reader_pc t = reader_pc s"
      by (auto simp: run_step.simps Receiving reg_recv_def readFrame_def c)
    with Receiving show ?thesis by (force intro: sys_step.run)
  next
    case (Beating f)
    have "\<exists>t. run_step pb Leave s = Some t \<and> run_pc t = Joining \<and> reader_pc t = reader_pc s"
      by (auto simp: run_step.simps Beating st)
    with Beating show ?thesis by (force intro: sys_step.run)
  next
    case Joining
    show ?thesis
    proof (cases "reader_pc s")
      case NoReader
      with assms(2) Joining show ?thesis by (simp add: reader_started_def)
    next
      case ReaderTop
      have "\<exists>t. reader_step pb s = Some t \<and> run_pc t = Joining \<and> reader_pc t = ReaderDone"
        by (auto simp: reader_step.simps ReaderTop st Joining)
      with ReaderTop Joining show ?thesis by (force intro: sys_step.read)
    next
      case ReaderWaits
      have "\<exists>t. reader_step pb s = Some t \<and> run_pc t = Joining \<and> reader_pc t = ReaderDone"
        by (auto simp: read_defs readFrame_def c ReaderWaits Joining)
      with ReaderWaits Joining show ?thesis by (force intro: sys_step.read)
    next
      case ReaderDone
      have "\<exists>t. run_step pb Tick s = Some t \<and> run_pc t = ConnLost \<and> reader_pc t = reader_pc s"
        by (auto simp: run_step.simps Joining ReaderDone)
      with Joining show ?thesis by (force intro: sys_step.run)
    qed
  qed (use assms(3) d st in \<open>auto intro!: exI [of _ "s\<lparr>run_pc := Returned\<rparr>"] sys_step.run [of _ Tick] simp: run_step.simps\<close>)
qed

lemma stopped_returns:
  assumes "stopped_at n s" "reader_started s"
  shows "\<exists>t. sys_reach pb s t \<and> run_pc t \<in> {Returned, Panicked}"
  using assms
proof (induction "run_left (run_pc s) + reader_left (reader_pc s)" arbitrary: s rule: less_induct)
  case less
  show ?case
  proof (cases "run_pc s \<in> {Returned, Panicked}")
    case False
    with stopped_progress [OF less.prems] obtain u where u: "sys_step pb s u"
      "run_left (run_pc u) + reader_left (reader_pc u) < run_left (run_pc s) + reader_left (reader_pc s)"
      by blast
    with less reg_stopped.inv_step reg_reader.inv_step show ?thesis
      by (metis converse_rtranclp_into_rtranclp)
  qed blast
qed

text \<open>While the reader is blocked and \<open>Stop\<close> is not called, \<open>Run\<close> waits.\<close>

definition waits_for_reader :: "Client \<Rightarrow> net \<Rightarrow> reg_sys \<Rightarrow> bool" where
  "waits_for_reader c n s \<longleftrightarrow> client s = c \<and> net s = n \<and> run_pc s = Joining \<and> reader_pc s = ReaderWaits"

interpretation reg_blocked: invariant_of "sys_step pb"
  "\<lambda>s. readFrame c n = None \<and> (stop_pc s = NotStopping \<longrightarrow> waits_for_reader c n s)" for pb c n
proof unfold_locales
  fix s t
  assume inv: "readFrame c n = None \<and> (stop_pc s = NotStopping \<longrightarrow> waits_for_reader c n s)"
    and "sys_step pb s t"
  from this(2) show "readFrame c n = None \<and> (stop_pc t = NotStopping \<longrightarrow> waits_for_reader c n t)"
  proof cases
    case (run ch)
    then show ?thesis using inv
      by (cases "stop_pc s = NotStopping")
        (auto simp: waits_for_reader_def reg_simps
          split: run_splits)
  next
    case read
    then show ?thesis using inv
      by (cases "stop_pc s = NotStopping")
        (auto simp: waits_for_reader_def read_defs
          split: read_splits)
  next
    case stop
    then show ?thesis using inv
      by (auto simp: stop_step.simps split: stop_splits)
  qed (use inv in \<open>auto simp: waits_for_reader_def\<close>)
qed

section \<open>How long Run sleeps\<close>

definition backoff_ok :: "Client \<Rightarrow> int64 \<Rightarrow> bool" where
  "backoff_ok c b \<longleftrightarrow> (\<exists>i. sint b = sint (reconnectBackoff c) * 2 ^ i \<and>
     (i = 0 \<or> sint b < 2 * sint (reconnectMaxBackoff c)))"

definition sleep_inv :: "Client \<Rightarrow> reg_sys \<Rightarrow> bool" where
  "sleep_inv c s \<longleftrightarrow> same_identity c (client s) \<and> backoff_ok c (backoff s) \<and> (\<forall>d\<in>set (slept s). backoff_ok c d)"

lemma backoff_ok_start [simp]: "backoff_ok c (reconnectBackoff c)"
  by (auto simp: backoff_ok_def intro: exI [of _ 0])

lemma backoff_ok_next:
  assumes "backoff_ok c b" "0 \<le> sint (reconnectBackoff c)" "sint (reconnectMaxBackoff c) \<le> 2 ^ 62"
  shows "backoff_ok c (next_backoff (reconnectMaxBackoff c) b)"
proof -
  from assms(1) obtain i where i: "sint b = sint (reconnectBackoff c) * 2 ^ i"
    by (auto simp: backoff_ok_def)
  with assms(2) have "0 \<le> sint b" by simp
  from next_backoff_sint [OF this assms(3)] assms(1) i show ?thesis
    by (auto simp: backoff_ok_def intro: exI [of _ "Suc i"] exI [of _ i])
qed

lemma same_identity_config:
  assumes "same_identity c c'"
  shows "reconnectBackoff c' = reconnectBackoff c" "reconnectMaxBackoff c' = reconnectMaxBackoff c"
  using assms unfolding same_identity_def by (metis Client.select_convs Client.surjective Client.update_convs)+

lemma sys_step_identity: "sys_step pb s t \<Longrightarrow> same_identity (client s) (client t)"
  using sys_step_current [of pb s t]
  by (auto simp: opens_conn_def stays_on_conn_def on_current_def) (simp add: same_identity_def)

lemma sys_step_sleep:
  assumes "sys_step pb s t"
  shows "backoff t = backoff s \<and> slept t = slept s \<or>
    backoff t = reconnectBackoff (client t) \<and> slept t = slept s \<or>
    backoff t = next_backoff (reconnectMaxBackoff (client s)) (backoff s) \<and> slept t = slept s @ [backoff s]"
  using assms
proof cases
  case (run ch)
  then show ?thesis
    by (auto simp: reg_simps
        split: run_splits)
next
  case read
  then show ?thesis
    by (auto simp: read_defs
        split: read_splits)
next
  case stop
  then show ?thesis by (auto simp: stop_step.simps split: stop_splits)
qed auto

interpretation reg_sleep: invariant_of "sys_step pb"
  "\<lambda>s. 0 \<le> sint (reconnectBackoff c) \<and> sint (reconnectMaxBackoff c) \<le> 2 ^ 62 \<and> sleep_inv c s" for pb c
proof unfold_locales
  fix s t
  assume inv: "0 \<le> sint (reconnectBackoff c) \<and> sint (reconnectMaxBackoff c) \<le> 2 ^ 62 \<and> sleep_inv c s"
    and st: "sys_step pb s t"
  have "same_identity c (client t)"
    using inv sys_step_identity [OF st] same_identity_trans by (auto simp: sleep_inv_def)
  with inv sys_step_sleep [OF st] same_identity_config [of c "client s"]
    same_identity_config [of c "client t"] backoff_ok_next [of c "backoff s"]
  show "0 \<le> sint (reconnectBackoff c) \<and> sint (reconnectMaxBackoff c) \<le> 2 ^ 62 \<and> sleep_inv c t"
    by (auto simp: sleep_inv_def)
qed

text \<open>\<open>Run\<close> returns only when it was told to.\<close>

interpretation reg_told: invariant_of "sys_step pb" "\<lambda>s. run_pc s = Returned \<longrightarrow> stopping s" for pb
proof unfold_locales
  fix s t assume inv: "run_pc s = Returned \<longrightarrow> stopping s" and "sys_step pb s t"
  from this(2) show "run_pc t = Returned \<longrightarrow> stopping t"
  proof cases
    case (run ch)
    then show ?thesis using inv
      by (auto simp: reg_simps
          split: run_splits)
  next
    case read
    have "ctx_done t = ctx_done s" using read(2)
      by (auto simp: read_defs
        split: read_splits)
    with reader_step_current [OF read(2)] reader_step_quiet [OF read(2)] inv show ?thesis
      by (auto simp: stays_on_conn_def stopping_def)
  next
    case stop
    have "ctx_done t = ctx_done s" using stop(2)
      by (auto simp: stop_step.simps split: stop_splits)
    with stop_step_current [OF stop(2)] stop_step_quiet [OF stop(2)] inv show ?thesis
      by (auto simp: stays_on_conn_def stopping_def)
  qed (use inv in \<open>auto simp: stopping_def\<close>)
qed

text \<open>A positive heartbeat interval keeps \<open>time.NewTicker\<close> from panicking.\<close>

interpretation reg_no_panic: invariant_of "sys_step pb"
  "\<lambda>s. 0 <s heartbeatInterval (client s) \<and> run_pc s \<noteq> Panicked" for pb
proof unfold_locales
  fix s t assume inv: "0 <s heartbeatInterval (client s) \<and> run_pc s \<noteq> Panicked" and st: "sys_step pb s t"
  have id: "heartbeatInterval (client t) = heartbeatInterval (client s)"
    using sys_step_identity [OF st] unfolding same_identity_def
    by (metis Client.select_convs(4) Client.surjective Client.update_convs(8,9))
  have "run_pc t \<noteq> Panicked" using st
  proof cases
    case (run ch)
    with inv id show ?thesis
      by (auto simp: reg_simps
          word_sle_eq word_sless_alt
          split: run_splits)
  qed (use inv reader_step_quiet stop_step_quiet in auto)
  with inv id show "0 <s heartbeatInterval (client t) \<and> run_pc t \<noteq> Panicked" by simp
qed

section \<open>Executing a schedule\<close>

datatype actor = RunG choice | ReaderG | StopG | CancelG

fun sys_exec :: "registry_pb \<Rightarrow> actor list \<Rightarrow> reg_sys \<Rightarrow> reg_sys option" where
  "sys_exec pb [] s = Some s"
| "sys_exec pb (a # as) s =
     (if run_pc s = Panicked then None
      else Option.bind
        (case a of RunG ch \<Rightarrow> run_step pb ch s | ReaderG \<Rightarrow> reader_step pb s | StopG \<Rightarrow> stop_step s
         | CancelG \<Rightarrow> Some (s\<lparr>ctx_done := True\<rparr>)) (sys_exec pb as))"

lemma sys_exec_reach: "sys_exec pb as s = Some t \<Longrightarrow> sys_reach pb s t"
proof (induction as arbitrary: s)
  case (Cons a as)
  then obtain u where u: "sys_exec pb as u = Some t" and
    "(case a of RunG ch \<Rightarrow> run_step pb ch s | ReaderG \<Rightarrow> reader_step pb s | StopG \<Rightarrow> stop_step s
       | CancelG \<Rightarrow> Some (s\<lparr>ctx_done := True\<rparr>)) = Some u" "run_pc s \<noteq> Panicked"
    by (auto simp: Option.bind_eq_Some_conv split: if_splits)
  then have "sys_step pb s u" by (cases a) (auto intro: sys_step.intros)
  with Cons.IH [OF u] show ?case by (meson converse_rtranclp_into_rtranclp)
qed simp

text \<open>A registry that accepts a registration and then stays silent.\<close>

definition accepting :: choice where
  "accepting = Dial (Dialed (reader_of [[0,0,0,1],[1]] None) None)"

definition session_schedule :: "actor list" where
  "session_schedule = [RunG Tick, RunG accepting, RunG Tick, RunG Tick, RunG Tick, ReaderG]"

section \<open>Properties\<close>

text \<open>C5. Protocol conformance: whatever the interleaving of \<open>Run\<close>, its reader, \<open>Stop\<close> and the
  cancellation, and whatever the registry does, the bytes on every connection are a register frame
  followed by heartbeat frames, cut off at most once and then for good.\<close>

theorem registry_wire_protocol:
  assumes "sys_reach pb (start_run c n) s" "\<forall>k\<in>set n. wire_ok pb c k"
    and "\<forall>k. conn c = Some k \<longrightarrow> k < length n"
  shows "\<forall>k\<in>set (net s). \<exists>m. prefix (sent (nc_out k)) (session_bytes pb (client s) m)"
proof -
  have "reg_wire_inv pb (start_run c n)"
    using assms(2,3) by (auto simp: reg_wire_inv_def conn_wire_inv_def start_run_def in_session_def)
  from reg_wire.inv_reached [OF assms(1) this] show ?thesis
    by (auto simp: reg_wire_inv_def conn_wire_inv_def wire_ok_def in_set_conv_nth)
qed

theorem registry_wire_protocol_witness:
  "\<exists>s. sys_exec sample_registry (session_schedule @ [RunG Tick, RunG Tick]) (start_run sample_client []) = Some s \<and>
    map (sent \<circ> nc_out) (net s) = [[0,0,0,1,7, 0,0,0,1,8, 0,0,0,1,8, 0,0,0,1,8]] \<and>
    (\<exists>m. prefix [0,0,0,1,7, 0,0,0,1,8, 0,0,0,1,8, 0,0,0,1,8] (session_bytes sample_registry (client s) m))"
proof -
  let ?s = "the (sys_exec sample_registry (session_schedule @ [RunG Tick, RunG Tick]) (start_run sample_client []))"
  have s: "sys_exec sample_registry (session_schedule @ [RunG Tick, RunG Tick]) (start_run sample_client []) = Some ?s"
    "map (sent \<circ> nc_out) (net ?s) = [[0,0,0,1,7, 0,0,0,1,8, 0,0,0,1,8, 0,0,0,1,8]]"
    by code_simp+
  moreover have "\<forall>k. conn sample_client = Some k \<longrightarrow> k < length ([] :: net)"
    by (simp add: sample_client_def NewClient_def)
  ultimately show ?thesis
    using registry_wire_protocol [OF sys_exec_reach [OF s(1)]] by (force simp: map_eq_Cons_conv)
qed

text \<open>C6. \<open>Stop\<close> is final: once it has closed the channel and the connection, and \<open>Run\<close> is not in
  the middle of a dial, no connection is opened and no byte written any more, and from every state
  reached later \<open>Run\<close> can still return.\<close>

theorem Stop_is_final:
  assumes "sys_reach pb (start_run c n) s" "0 <s heartbeatInterval c"
    and "stopCh (client s)" "conn (client s) = None" "run_pc s \<noteq> Dialing"
    and "sys_reach pb s t"
  shows "net t = net s \<and> (\<exists>u. sys_reach pb t u \<and> run_pc u = Returned)"
proof -
  have reach: "sys_reach pb (start_run c n) t" using assms(1,6) by simp
  have "stopped_at (net s) s" using assms by (simp add: stopped_at_def)
  from reg_stopped.inv_reached [OF assms(6) this] have t: "stopped_at (net s) t" .
  have "reader_started (start_run c n)" by (simp add: reader_started_def start_run_def)
  from reg_reader.inv_reached [OF reach this] stopped_returns [OF t]
  obtain u where u: "sys_reach pb t u" "run_pc u \<in> {Returned, Panicked}" by blast
  then have "sys_reach pb (start_run c n) u" using reach by simp
  from reg_no_panic.inv_reached [OF this] assms(2) have "run_pc u \<noteq> Panicked" by (simp add: start_run_def)
  with u t show ?thesis by (auto simp: stopped_at_def)
qed

theorem Stop_is_final_witness:
  "\<exists>s u. sys_exec sample_registry (session_schedule @ [StopG, StopG]) (start_run sample_client []) = Some s \<and>
    sys_reach sample_registry s u \<and> run_pc u = Returned"
proof -
  let ?s = "the (sys_exec sample_registry (session_schedule @ [StopG, StopG]) (start_run sample_client []))"
  have s: "sys_exec sample_registry (session_schedule @ [StopG, StopG]) (start_run sample_client []) = Some ?s"
    "stopCh (client ?s)" "conn (client ?s) = None" "run_pc ?s \<noteq> Dialing"
    by code_simp+
  have "0 <s heartbeatInterval sample_client" by code_simp
  from Stop_is_final [OF sys_exec_reach [OF s(1)] this s(2-4) rtranclp.rtrancl_refl] s(1) show ?thesis by blast
qed

text \<open>A connection replaced by \<open>Register\<close> is dropped: if the client still holds an open connection when
  \<open>Run\<close> registers again (as it does after \<open>Start\<close> has registered, or after the registry's
  side has ended the connection), no code of the client closes the old connection or uses it again. It
  stays open until the runtime's finalizer closes its descriptor at a garbage collection.\<close>

lemma replaced_connection_dropped:
  assumes "run_pc s = Dialing" "conn (client s) = Some k" "k < length (net s)" "is_open (net s ! k)"
    and "run_step pb (Dial (Dialed r rm)) s = Some t" "sys_reach pb t u"
  shows "net u ! k = net s ! k \<and> is_open (net u ! k) \<and> conn (client u) \<noteq> Some k"
proof -
  have "k < length (net t) \<and> conn (client t) \<noteq> Some k \<and> net t ! k = net s ! k"
    using assms(1-5) by (auto simp: run_step.simps finish_reg_def nth_append)
  from reg_forgotten.inv_reached [OF assms(6) this] assms(4) show ?thesis by simp
qed

lemma replaced_connection_dropped_witness:
  "\<exists>c n s. Register sample_registry (Dialed (reader_of [[0,0,0,1],[1]] None) None) sample_client [] = Some (None, c, n) \<and>
     sys_exec sample_registry (session_schedule @ [StopG, StopG, RunG Leave, ReaderG, RunG Tick, RunG Tick])
       (start_run c n) = Some s \<and> run_pc s = Returned \<and> is_open (net s ! 0)"
proof -
  let ?R = "Register sample_registry (Dialed (reader_of [[0,0,0,1],[1]] None) None) sample_client []"
  let ?c = "fst (snd (the ?R))" and ?n = "snd (snd (the ?R))"
  let ?rest = "[RunG Tick, RunG Tick, RunG Tick, ReaderG, StopG, StopG, RunG Leave, ReaderG, RunG Tick, RunG Tick]"
  let ?s = "the (sys_exec sample_registry [RunG Tick] (start_run ?c ?n))"
  let ?t = "the (run_step sample_registry accepting ?s)"
  let ?u = "the (sys_exec sample_registry ?rest ?t)"
  have R: "?R = Some (None, ?c, ?n)" by code_simp
  have s: "run_pc ?s = Dialing" "conn (client ?s) = Some 0" "0 < length (net ?s)" "is_open (net ?s ! 0)"
    by code_simp+
  have t: "run_step sample_registry accepting ?s = Some ?t" by code_simp
  have u: "sys_exec sample_registry ?rest ?t = Some ?u" by code_simp
  have "is_open (net ?u ! 0)"
    unfolding accepting_def
    by (rule conjunct1 [OF conjunct2 [OF replaced_connection_dropped
      [OF s t [unfolded accepting_def] sys_exec_reach [OF u [unfolded accepting_def]]]]])
  moreover have "sys_exec sample_registry (session_schedule @ [StopG, StopG, RunG Leave, ReaderG, RunG Tick, RunG Tick])
       (start_run ?c ?n) = Some ?u" "run_pc ?u = Returned"
    by code_simp+
  ultimately show ?thesis using R by blast
qed

text \<open>C37. The connection the client holds is always the one dialled last, and it is open: under every
  interleaving of \<open>Run\<close>, its reader, \<open>Stop\<close> and the cancellation, whatever closes the connection also
  clears the pointer, and no goroutine is left with a pointer to an earlier connection.\<close>

theorem current_connection_open:
  assumes "sys_reach pb (start_run c n) s" "\<forall>k. conn c = Some k \<longrightarrow> Suc k = length n \<and> is_open (n ! k)"
    and "conn (client s) = Some k"
  shows "Suc k = length (net s) \<and> is_open (net s ! k)"
  using reg_pointer.inv_reached [OF assms(1)] assms(2,3)
  by (simp add: start_run_def pointer_ok_def)

theorem current_connection_open_witness:
  "\<exists>s. sys_exec sample_registry session_schedule (start_run sample_client []) = Some s \<and>
    conn (client s) = Some 0 \<and> Suc 0 = length (net s) \<and> is_open (net s ! 0)"
proof -
  let ?s = "the (sys_exec sample_registry session_schedule (start_run sample_client []))"
  have s: "sys_exec sample_registry session_schedule (start_run sample_client []) = Some ?s"
    "conn (client ?s) = Some 0"
    by code_simp+
  with current_connection_open [OF sys_exec_reach [OF s(1)] _ s(2)] show ?thesis
    by (auto simp: sample_client_def NewClient_def)
qed

text \<open>C36. After the heartbeats have failed, or the context was cancelled, \<open>Run\<close> waits for its
  reader, and only \<open>Stop\<close> or the peer can end that wait: as long as the registry sends nothing and
  \<open>Stop\<close> is not called, \<open>Run\<close> neither returns nor reconnects.\<close>

theorem join_blocked_until_Stop:
  assumes "run_pc s = Joining" "reader_pc s = ReaderWaits" "stop_pc s = NotStopping"
    and "readFrame (client s) (net s) = None"
    and "sys_reach pb s t" "stop_pc t = NotStopping"
  shows "run_pc t = Joining \<and> client t = client s \<and> net t = net s"
proof -
  have "readFrame (client s) (net s) = None \<and>
      (stop_pc s = NotStopping \<longrightarrow> waits_for_reader (client s) (net s) s)"
    using assms by (simp add: waits_for_reader_def)
  from reg_blocked.inv_reached [OF assms(5) this] assms(6) show ?thesis
    by (simp add: waits_for_reader_def)
qed

theorem join_blocked_until_Stop_witness:
  "\<exists>s. sys_exec sample_registry (session_schedule @ [CancelG, RunG Leave]) (start_run sample_client []) = Some s \<and>
    ctx_done s \<and> (\<forall>t. sys_reach sample_registry s t \<longrightarrow> stop_pc t = NotStopping \<longrightarrow> run_pc t = Joining)"
proof -
  let ?s = "the (sys_exec sample_registry (session_schedule @ [CancelG, RunG Leave]) (start_run sample_client []))"
  have s: "sys_exec sample_registry (session_schedule @ [CancelG, RunG Leave]) (start_run sample_client []) = Some ?s"
    "ctx_done ?s" and h: "run_pc ?s = Joining" "reader_pc ?s = ReaderWaits" "stop_pc ?s = NotStopping"
    "readFrame (client ?s) (net ?s) = None"
    by code_simp+
  from join_blocked_until_Stop [OF h] s show ?thesis by blast
qed

text \<open>C22. How long \<open>Run\<close> sleeps between attempts, for a configured back-off that is not negative and a
  configured maximum of at most \<open>2^62\<close> nanoseconds (146 years): always the back-off times a power of
  two, and, after a doubling, less than twice the maximum; within these bounds no doubling overflows.\<close>

theorem Run_sleeps_within:
  assumes "sys_reach pb (start_run c n) s" "0 \<le> sint (reconnectBackoff c)"
    and "sint (reconnectMaxBackoff c) \<le> 2 ^ 62"
  shows "\<forall>d\<in>set (slept s). \<exists>i. sint d = sint (reconnectBackoff c) * 2 ^ i \<and>
    (i = 0 \<or> sint d < 2 * sint (reconnectMaxBackoff c))"
proof -
  have "sleep_inv c (start_run c n)" by (simp add: sleep_inv_def start_run_def)
  with reg_sleep.inv_reached [OF assms(1), of c] assms(2,3) have "sleep_inv c s" by blast
  then show ?thesis unfolding sleep_inv_def backoff_ok_def by blast
qed

theorem Run_sleeps_within_witness:
  "\<exists>s. sys_exec sample_registry (concat (replicate 7 [RunG Tick, RunG (Dial (DialError ''refused'')), RunG Tick]))
      (start_run sample_client []) = Some s \<and>
    map sint (slept s) = map ((*) 1000000000) [1, 2, 4, 8, 16, 32, 32] \<and>
    (\<forall>d\<in>set (slept s). \<exists>i. sint d = 1000000000 * 2 ^ i \<and> (i = 0 \<or> sint d < 60000000000))"
proof -
  let ?e = "sys_exec sample_registry (concat (replicate 7 [RunG Tick, RunG (Dial (DialError ''refused'')), RunG Tick]))
      (start_run sample_client [])"
  have s: "?e = Some (the ?e)" "map sint (slept (the ?e)) = map ((*) 1000000000) [1, 2, 4, 8, 16, 32, 32]"
    by code_simp+
  have c: "sint (reconnectBackoff sample_client) = 1000000000" "sint (reconnectMaxBackoff sample_client) = 30000000000"
    by code_simp+
  from Run_sleeps_within [OF sys_exec_reach [OF s(1)]] s show ?thesis by (auto simp: c)
qed

text \<open>Beyond that bound a doubling can overflow: from 5000000000 seconds, with a maximum of 9000000000,
  it gives a negative duration, for which \<open>time.Sleep\<close> returns at once.\<close>

lemma backoff_overflows: "sint (next_backoff 9000000000000000000 5000000000000000000) = - 8446744073709551616"
  by (simp add: next_backoff_def word_sless_alt)

text \<open>\<open>Run\<close> never gives up by itself: it returns only after the context was cancelled or
  \<open>Stop\<close> was called.\<close>

lemma Run_returns_only_when_told:
  assumes "sys_reach pb (start_run c n) s" "run_pc s = Returned"
  shows "ctx_done s \<or> stopCh (client s)"
  using reg_told.inv_reached [OF assms(1)] assms(2) by (simp add: start_run_def stopping_def)

lemma Run_returns_only_when_told_witness:
  "\<exists>s. sys_exec sample_registry (session_schedule @ [StopG, StopG, RunG Leave, ReaderG, RunG Tick, RunG Tick])
      (start_run sample_client []) = Some s \<and> run_pc s = Returned \<and> (ctx_done s \<or> stopCh (client s))"
proof -
  let ?e = "sys_exec sample_registry (session_schedule @ [StopG, StopG, RunG Leave, ReaderG, RunG Tick, RunG Tick])
      (start_run sample_client [])"
  have s: "?e = Some (the ?e)" "run_pc (the ?e) = Returned" by code_simp+
  from Run_returns_only_when_told [OF sys_exec_reach [OF s(1)] s(2)] s show ?thesis by blast
qed

end
