(* ===== verification/Lifecycle.thy ===== *)
theory Lifecycle
  imports Server Registry_Run
begin

text \<open>
  The life of the RPC server, \<open>Start\<close> and \<open>Stop\<close> of \<open>internal/server/server.go\<close>: registration, the
  listener, the accept loop, shutdown.

  \<open>srv_step\<close> lets \<open>Start\<close> take one step with the answer its environment gives (of the registration,
  of the listen call, of \<open>Accept\<close>), or lets another goroutine call \<open>Stop\<close>, or cancels the context. An
  accepted connection is the initial state of \<open>handleConnection\<close> (theory \<open>Server\<close>); the goroutine
  \<open>Run\<close> that \<open>Start\<close> launches is the subject of \<open>Registry_Run\<close>. \<open>Accept\<close> on a closed listener fails;
  on an open one it may fail too. The field \<open>dialed\<close> records what the registry answered when \<open>Start\<close>
  dialed it; no step reads it.
\<close>

section \<open>The server\<close>

datatype listener = NoListener | ListenerOpen | ListenerClosed

record 'h Server =
  addr :: string
  router :: "'h Router"
  registry :: Client
  listener :: listener

definition NewServer :: "string \<Rightarrow> 'h Router \<Rightarrow> Client \<Rightarrow> 'h Server" where
  "NewServer a r reg = \<lparr>addr = a, router = r, registry = reg, listener = NoListener\<rparr>"

datatype start_error = RegisterError reg_error | ListenError string

datatype start_pc = Registering | CallingListen | Accepting | StartReturned "start_error option"

record 'w srv_sys =
  server :: "'w HandlerFunc Server"
  srv_net :: net
  start_pc :: start_pc
  run_started :: bool
  conns :: "'w conn_state list"
  accept_errors :: nat
  srv_ctx_done :: bool
  dialed :: "dial option"

definition start_server :: "'w HandlerFunc Server \<Rightarrow> 'w srv_sys" where
  "start_server sv = \<lparr>server = sv, srv_net = [], start_pc = Registering, run_started = False, conns = [],
     accept_errors = 0, srv_ctx_done = False, dialed = None\<rparr>"

section \<open>Start, Stop\<close>

definition register_step :: "registry_pb \<Rightarrow> dial \<Rightarrow> 'w srv_sys \<Rightarrow> 'w srv_sys option" where
  "register_step pb d s =
     (case Register pb d (registry (server s)) (srv_net s) of
        None \<Rightarrow> None
      | Some (e, c, n) \<Rightarrow>
          (let s1 = s\<lparr>server := (server s)\<lparr>registry := c\<rparr>, srv_net := n, dialed := Some d\<rparr> in
           case e of
             Some err \<Rightarrow> Some (s1\<lparr>start_pc := StartReturned (Some (RegisterError err))\<rparr>)
           | None \<Rightarrow> Some (s1\<lparr>run_started := True, start_pc := CallingListen\<rparr>)))"

fun listen_step :: "string option \<Rightarrow> 'w srv_sys \<Rightarrow> 'w srv_sys" where
  "listen_step (Some e) s = s\<lparr>start_pc := StartReturned (Some (ListenError e))\<rparr>"
| "listen_step None s = s\<lparr>server := (server s)\<lparr>listener := ListenerOpen\<rparr>, start_pc := Accepting\<rparr>"

datatype 'w accepted = AcceptOk reader "nat option" 'w | AcceptErr

fun accept_step :: "'w accepted \<Rightarrow> 'w srv_sys \<Rightarrow> 'w srv_sys option" where
  "accept_step (AcceptOk r rm w) s =
     (if listener (server s) = ListenerOpen then Some (s\<lparr>conns := conns s @ [accept_conn r rm w]\<rparr>) else None)"
| "accept_step AcceptErr s =
     Some (if srv_ctx_done s then s\<lparr>start_pc := StartReturned None\<rparr>
           else s\<lparr>accept_errors := accept_errors s + 1\<rparr>)"

definition Server_Stop :: "'w srv_sys \<Rightarrow> 'w srv_sys" where
  "Server_Stop s =
     (let sv = server s;
          l = (if listener sv = NoListener then NoListener else ListenerClosed);
          (c, n) = Stop (registry sv) (srv_net s)
      in s\<lparr>server := sv\<lparr>listener := l, registry := c\<rparr>, srv_net := n\<rparr>)"

datatype 'w srv_event =
    RegisterAnswer dial | ListenAnswer "string option" | AcceptAnswer "'w accepted" | StopCall | CtxCancel

definition srv_exec :: "registry_pb \<Rightarrow> 'w srv_event \<Rightarrow> 'w srv_sys \<Rightarrow> 'w srv_sys option" where
  "srv_exec pb ev s =
     (case ev of
        RegisterAnswer d \<Rightarrow> if start_pc s = Registering then register_step pb d s else None
      | ListenAnswer e \<Rightarrow> if start_pc s = CallingListen then Some (listen_step e s) else None
      | AcceptAnswer a \<Rightarrow> if start_pc s = Accepting then accept_step a s else None
      | StopCall \<Rightarrow> Some (Server_Stop s)
      | CtxCancel \<Rightarrow> Some (s\<lparr>srv_ctx_done := True\<rparr>))"

inductive srv_step :: "registry_pb \<Rightarrow> 'w srv_sys \<Rightarrow> 'w srv_sys \<Rightarrow> bool" for pb where
  event: "srv_exec pb ev s = Some t \<Longrightarrow> srv_step pb s t"

abbreviation srv_reach :: "registry_pb \<Rightarrow> 'w srv_sys \<Rightarrow> 'w srv_sys \<Rightarrow> bool" where
  "srv_reach pb \<equiv> (srv_step pb)\<^sup>*\<^sup>*"

section \<open>Invariants\<close>

lemma Server_Stop_simps [simp]:
  "start_pc (Server_Stop s) = start_pc s" "run_started (Server_Stop s) = run_started s"
  "conns (Server_Stop s) = conns s" "accept_errors (Server_Stop s) = accept_errors s"
  "dialed (Server_Stop s) = dialed s" "srv_ctx_done (Server_Stop s) = srv_ctx_done s"
  "listener (server (Server_Stop s)) = (if listener (server s) = NoListener then NoListener else ListenerClosed)"
  by (simp_all add: Server_Stop_def Let_def split: prod.splits)

lemma srv_step_cases:
  assumes "srv_step pb s t"
  obtains (registered) d c n where "start_pc s = Registering"
      "Register pb d (registry (server s)) (srv_net s) = Some (None, c, n)"
      "t = s\<lparr>server := (server s)\<lparr>registry := c\<rparr>, srv_net := n, dialed := Some d, run_started := True,
        start_pc := CallingListen\<rparr>"
  | (not_registered) d err c n where "start_pc s = Registering"
      "Register pb d (registry (server s)) (srv_net s) = Some (Some err, c, n)"
      "t = s\<lparr>server := (server s)\<lparr>registry := c\<rparr>, srv_net := n, dialed := Some d,
        start_pc := StartReturned (Some (RegisterError err))\<rparr>"
  | (listen) e where "start_pc s = CallingListen" "t = listen_step e s"
  | (accept) r rm w where "start_pc s = Accepting" "listener (server s) = ListenerOpen"
      "t = s\<lparr>conns := conns s @ [accept_conn r rm w]\<rparr>"
  | (accept_error) "start_pc s = Accepting" "\<not> srv_ctx_done s" "t = s\<lparr>accept_errors := accept_errors s + 1\<rparr>"
  | (accept_end) "start_pc s = Accepting" "srv_ctx_done s" "t = s\<lparr>start_pc := StartReturned None\<rparr>"
  | (stop) "t = Server_Stop s"
  | (cancel) "t = s\<lparr>srv_ctx_done := True\<rparr>"
  using assms
proof cases
  case (event ev)
  show ?thesis
  proof (cases ev)
    case (RegisterAnswer d)
    with event show ?thesis
      by (auto simp: srv_exec_def register_step_def Let_def split: if_splits option.splits
          intro: registered not_registered)
  next
    case (ListenAnswer e)
    with event show ?thesis by (auto simp: srv_exec_def split: if_splits intro: listen)
  next
    case (AcceptAnswer a)
    with event show ?thesis
      by (cases a) (auto simp: srv_exec_def split: if_splits intro: accept accept_error accept_end)
  qed (use event in \<open>auto simp: srv_exec_def intro: stop cancel\<close>)
qed

text \<open>What the states of \<open>Start\<close> say about the server.\<close>

definition start_inv :: "'w srv_sys \<Rightarrow> bool" where
  "start_inv s \<longleftrightarrow>
     (start_pc s \<in> {CallingListen, Accepting} \<or> listener (server s) \<noteq> NoListener \<or> conns s \<noteq> [] \<longrightarrow> run_started s) \<and>
     (conns s \<noteq> [] \<longrightarrow> listener (server s) \<noteq> NoListener) \<and>
     (listener (server s) \<noteq> NoListener \<longrightarrow> start_pc s = Accepting \<or> start_pc s = StartReturned None) \<and>
     (start_pc s = StartReturned None \<longrightarrow> srv_ctx_done s)"

interpretation srv_start: invariant_of "srv_step pb" start_inv for pb
proof unfold_locales
  fix s t :: "'a srv_sys"
  assume inv: "start_inv s" and "srv_step pb s t"
  from this(2) show "start_inv t"
  proof (cases rule: srv_step_cases)
    case (listen e)
    with inv show ?thesis by (cases e) (auto simp: start_inv_def)
  qed (use inv in \<open>auto simp: start_inv_def\<close>)
qed

text \<open>How far \<open>Start\<close> has got is decided by the answer of the one call of \<open>Register\<close> it has made, on the
  fresh client, which a concurrent \<open>Stop\<close> may have marked as stopped.\<close>

definition registered_as :: "registry_pb \<Rightarrow> Client \<Rightarrow> dial \<Rightarrow> reg_error option \<Rightarrow> bool" where
  "registered_as pb reg d e \<longleftrightarrow> (\<exists>b c n. Register pb d (reg\<lparr>stopCh := b\<rparr>) [] = Some (e, c, n))"

definition register_inv :: "registry_pb \<Rightarrow> Client \<Rightarrow> 'w srv_sys \<Rightarrow> bool" where
  "register_inv pb reg s \<longleftrightarrow>
     (case dialed s of
        None \<Rightarrow> start_pc s = Registering \<and> srv_net s = [] \<and> (\<exists>b. registry (server s) = reg\<lparr>stopCh := b\<rparr>)
      | Some d \<Rightarrow> start_pc s \<noteq> Registering \<and>
          (if \<exists>err. start_pc s = StartReturned (Some (RegisterError err))
           then \<exists>err. start_pc s = StartReturned (Some (RegisterError err)) \<and> registered_as pb reg d (Some err)
           else registered_as pb reg d None))"

lemma Server_Stop_fresh:
  assumes "registry (server s) = reg\<lparr>stopCh := b\<rparr>" "conn reg = None"
  shows "registry (server (Server_Stop s)) = reg\<lparr>stopCh := True\<rparr>" "srv_net (Server_Stop s) = srv_net s"
  using assms by (simp_all add: Server_Stop_def Stop_def Deregister_def closeConn_def Let_def)

lemma registered_asI [intro]:
  "Register pb d (reg\<lparr>stopCh := b\<rparr>) [] = Some (e, c, n) \<Longrightarrow> registered_as pb reg d e"
  unfolding registered_as_def by blast

lemma register_inv_step:
  assumes "register_inv pb reg s" "srv_step pb s t" "conn reg = None"
  shows "register_inv pb reg t"
  using assms(2)
proof (cases rule: srv_step_cases)
  case (listen e)
  with assms(1) show ?thesis by (cases e) (auto simp: register_inv_def split: option.splits)
next
  case stop
  with assms(1,3) show ?thesis
    by (cases "dialed s") (auto simp: register_inv_def dest: Server_Stop_fresh)
qed (use assms(1) in \<open>auto simp: register_inv_def split: option.splits\<close>)

text \<open>Once the listener is closed.\<close>

definition shut :: "'w conn_state list \<Rightarrow> 'w srv_sys \<Rightarrow> bool" where
  "shut cs s \<longleftrightarrow> listener (server s) = ListenerClosed \<and> conns s = cs \<and>
     (start_pc s = Accepting \<or> start_pc s = StartReturned None \<and> srv_ctx_done s)"

interpretation srv_shut: invariant_of "srv_step pb" "shut cs" for pb cs
proof unfold_locales
  fix s t :: "'a srv_sys"
  assume inv: "shut cs s" and "srv_step pb s t"
  from this(2) show "shut cs t"
    by (cases rule: srv_step_cases) (use inv in \<open>auto simp: shut_def\<close>)
qed

section \<open>Properties\<close>

text \<open>C33. \<open>Start\<close> serves only what it has registered: a listener exists, and connections are accepted,
  only when the call of \<open>Register\<close> on the fresh client returned without an error for the answer the
  registry gave to its dial, and after \<open>Run\<close> has been started; when \<open>Register\<close> returns an error,
  \<open>Start\<close> returns that error. \<open>Start\<close> returns an error only before it listens, and returns without an
  error only after the context was cancelled.\<close>

theorem Start_order:
  assumes "srv_reach pb (start_server (NewServer a r reg)) s" "conn reg = None"
  shows "(listener (server s) \<noteq> NoListener \<or> conns s \<noteq> [] \<longrightarrow> run_started s \<and>
      (\<exists>d b c n. dialed s = Some d \<and> Register pb d (reg\<lparr>stopCh := b\<rparr>) [] = Some (None, c, n))) \<and>
    (start_pc s = StartReturned (Some (RegisterError err)) \<longrightarrow>
      (\<exists>d b c n. dialed s = Some d \<and> Register pb d (reg\<lparr>stopCh := b\<rparr>) [] = Some (Some err, c, n))) \<and>
    (start_pc s = StartReturned (Some e) \<longrightarrow> listener (server s) = NoListener \<and> conns s = []) \<and>
    (start_pc s = StartReturned None \<longrightarrow> srv_ctx_done s)"
proof -
  let ?s0 = "start_server (NewServer a r reg)"
  have "start_inv ?s0" by (simp add: start_inv_def start_server_def NewServer_def)
  from srv_start.inv_reached [OF assms(1) this] have inv: "start_inv s" .
  have "\<exists>b. reg = reg\<lparr>stopCh := b\<rparr>" by (rule exI [of _ "stopCh reg"]) simp
  then have "register_inv pb reg ?s0" by (simp add: register_inv_def start_server_def NewServer_def)
  with assms(1) have reg: "register_inv pb reg s"
    by (induction rule: rtranclp_induct) (auto intro: register_inv_step [OF _ _ assms(2)])
  show ?thesis
  proof (intro conjI impI)
    assume "listener (server s) \<noteq> NoListener \<or> conns s \<noteq> []"
    with inv reg show "run_started s"
      "\<exists>d b c n. dialed s = Some d \<and> Register pb d (reg\<lparr>stopCh := b\<rparr>) [] = Some (None, c, n)"
      by (auto simp: start_inv_def register_inv_def registered_as_def split: option.splits)
  next
    assume "start_pc s = StartReturned (Some (RegisterError err))"
    with reg show "\<exists>d b c n. dialed s = Some d \<and> Register pb d (reg\<lparr>stopCh := b\<rparr>) [] = Some (Some err, c, n)"
      by (auto simp: register_inv_def registered_as_def split: option.splits)
  qed (use inv in \<open>auto simp: start_inv_def\<close>)
qed

definition sample_server :: "nat srv_sys" where
  "sample_server = start_server (NewServer ''0.0.0.0:8080'' New sample_client)"

fun srv_execs :: "registry_pb \<Rightarrow> 'w srv_event list \<Rightarrow> 'w srv_sys \<Rightarrow> 'w srv_sys option" where
  "srv_execs pb [] s = Some s"
| "srv_execs pb (ev # evs) s = (case srv_exec pb ev s of None \<Rightarrow> None | Some t \<Rightarrow> srv_execs pb evs t)"

lemma srv_execs_reach: "srv_execs pb evs s = Some t \<Longrightarrow> srv_reach pb s t"
proof (induction evs arbitrary: s)
  case (Cons ev evs)
  then obtain u where "srv_exec pb ev s = Some u" "srv_execs pb evs u = Some t" by (auto split: option.splits)
  with Cons.IH show ?case by (meson converse_rtranclp_into_rtranclp srv_step.event)
qed simp

definition serving_events :: "nat srv_event list" where
  "serving_events = [RegisterAnswer (Dialed (reader_of [[0,0,0,1,1]] None) None), ListenAnswer None,
     AcceptAnswer (AcceptOk (reader_of [] None) None 0)]"

theorem Start_order_witness:
  "\<exists>s d b c n. srv_execs sample_registry serving_events sample_server = Some s \<and> length (conns s) = 1 \<and> run_started s \<and>
     dialed s = Some d \<and> Register sample_registry d (sample_client\<lparr>stopCh := b\<rparr>) [] = Some (None, c, n)"
proof -
  let ?e = "srv_execs sample_registry serving_events sample_server"
  have "\<not> Option.is_none ?e" "length (conns (the ?e)) = 1" by code_simp+
  then have s: "?e = Some (the ?e)" "length (conns (the ?e)) = 1" by (simp_all add: Option.is_none_def)
  then have ne: "conns (the ?e) \<noteq> []" by (metis length_0_conv zero_neq_one)
  have fresh: "conn sample_client = None" by (simp add: sample_client_def NewClient_def)
  from Start_order [OF srv_execs_reach [OF s(1) [unfolded sample_server_def]] fresh] ne s show ?thesis
    unfolding sample_server_def by blast
qed

text \<open>C34. After \<open>Stop\<close> on a listening server no further connection is accepted; but without a cancelled
  context \<open>Start\<close> does not return either: it stays in the accept loop, where each \<open>Accept\<close> fails.\<close>

theorem Stop_ends_accepting:
  assumes "start_pc s = Accepting" "listener (server s) \<noteq> NoListener" "srv_reach pb (Server_Stop s) t"
  shows "conns t = conns s \<and> listener (server t) = ListenerClosed \<and>
    (\<not> srv_ctx_done t \<longrightarrow> start_pc t = Accepting \<and>
      srv_exec pb (AcceptAnswer AcceptErr) t = Some (t\<lparr>accept_errors := accept_errors t + 1\<rparr>))"
proof -
  have "shut (conns s) (Server_Stop s)" using assms(1,2) by (simp add: shut_def)
  from srv_shut.inv_reached [OF assms(3) this] show ?thesis by (auto simp: shut_def srv_exec_def)
qed

theorem Stop_ends_accepting_witness:
  "\<exists>s. srv_execs sample_registry serving_events sample_server = Some s \<and>
    start_pc (Server_Stop s) = Accepting \<and> \<not> srv_ctx_done (Server_Stop s) \<and>
    srv_exec sample_registry (AcceptAnswer AcceptErr) (Server_Stop s) = Some ((Server_Stop s)\<lparr>accept_errors := 1\<rparr>)"
proof -
  let ?e = "srv_execs sample_registry serving_events sample_server"
  have "\<not> Option.is_none ?e" by code_simp
  then have e: "?e = Some (the ?e)" by (simp add: Option.is_none_def)
  have s: "start_pc (the ?e) = Accepting" "listener (server (the ?e)) \<noteq> NoListener"
    "\<not> srv_ctx_done (the ?e)" "accept_errors (the ?e) = 0"
    by code_simp+
  from Stop_ends_accepting [OF s(1,2) rtranclp.rtrancl_refl] e s(3,4) show ?thesis by auto
qed

end
