(* ===== verification/Utf8.thy ===== *)
theory Utf8
  imports Prelude
begin

text \<open>
  UTF-8 as Go's standard library reads and writes it (\<open>unicode/utf8\<close>): \<open>DecodeRune\<close> takes a byte that
  starts no valid sequence for U+FFFD and one byte, \<open>AppendRune\<close> writes U+FFFD for a number that is no
  character. Used by the padding of log lines (counted in characters) and by the strings of JSON.
\<close>

section \<open>Decoding and encoding\<close>

abbreviation code :: "char \<Rightarrow> nat" where
  "code c \<equiv> of_char c"

definition RuneError :: nat where
  "RuneError = 0xFFFD"

definition is_rune :: "nat \<Rightarrow> bool" where
  "is_rune r \<longleftrightarrow> r < 0xD800 \<or> 0xE000 \<le> r \<and> r \<le> 0x10FFFF"

definition between :: "nat \<Rightarrow> nat \<Rightarrow> char \<Rightarrow> bool" where
  "between lo hi c \<longleftrightarrow> lo \<le> code c \<and> code c \<le> hi"

text \<open>The range of the second byte by the first, and the number of bytes after the first.\<close>

definition second_range :: "nat \<Rightarrow> nat \<times> nat" where
  "second_range b =
     (if b = 0xE0 then (0xA0, 0xBF) else if b = 0xED then (0x80, 0x9F)
      else if b = 0xF0 then (0x90, 0xBF) else if b = 0xF4 then (0x80, 0x8F) else (0x80, 0xBF))"

definition trailing :: "nat \<Rightarrow> nat option" where
  "trailing b =
     (if b < 0x80 then Some 0 else if 0xC2 \<le> b \<and> b \<le> 0xDF then Some 1
      else if 0xE0 \<le> b \<and> b \<le> 0xEF then Some 2 else if 0xF0 \<le> b \<and> b \<le> 0xF4 then Some 3 else None)"

text \<open>A rune and the number of its bytes; \<open>s\<close> is not empty.\<close>

fun DecodeRune :: "string \<Rightarrow> nat \<times> nat" where
  "DecodeRune [] = (RuneError, 0)"
| "DecodeRune (c # cs) =
     (let b = code c; (lo, hi) = second_range b in
      case (trailing b, cs) of
        (Some 0, _) \<Rightarrow> (b, 1)
      | (Some (Suc 0), c1 # _) \<Rightarrow>
          if between lo hi c1 then ((b - 0xC0) * 64 + (code c1 - 0x80), 2) else (RuneError, 1)
      | (Some (Suc (Suc 0)), c1 # c2 # _) \<Rightarrow>
          if between lo hi c1 \<and> between 0x80 0xBF c2
          then ((b - 0xE0) * 4096 + (code c1 - 0x80) * 64 + (code c2 - 0x80), 3) else (RuneError, 1)
      | (Some (Suc (Suc (Suc 0))), c1 # c2 # c3 # _) \<Rightarrow>
          if between lo hi c1 \<and> between 0x80 0xBF c2 \<and> between 0x80 0xBF c3
          then ((b - 0xF0) * 262144 + (code c1 - 0x80) * 4096 + (code c2 - 0x80) * 64 + (code c3 - 0x80), 4)
          else (RuneError, 1)
      | _ \<Rightarrow> (RuneError, 1))"

definition encode_valid :: "nat \<Rightarrow> string" where
  "encode_valid r =
     (if r < 0x80 then [char_of r]
      else if r < 0x800 then [char_of (0xC0 + r div 64), char_of (0x80 + r mod 64)]
      else if r < 0x10000 then
        [char_of (0xE0 + r div 4096), char_of (0x80 + r div 64 mod 64), char_of (0x80 + r mod 64)]
      else [char_of (0xF0 + r div 262144), char_of (0x80 + r div 4096 mod 64), char_of (0x80 + r div 64 mod 64),
        char_of (0x80 + r mod 64)])"

definition AppendRune :: "nat \<Rightarrow> string" where
  "AppendRune r = encode_valid (if is_rune r then r else RuneError)"

lemma DecodeRune_size: "s \<noteq> [] \<Longrightarrow> 0 < snd (DecodeRune s) \<and> snd (DecodeRune s) \<le> length s"
  by (cases s) (auto simp: Let_def split: prod.splits option.splits nat.splits list.splits)

declare DecodeRune.simps [simp del]

text \<open>The runes of a string.\<close>

function runes :: "string \<Rightarrow> nat list" where
  "runes s = (if s = [] then [] else fst (DecodeRune s) # runes (drop (snd (DecodeRune s)) s))"
  by pat_completeness auto
termination
  by (relation "measure length") (auto simp: DecodeRune_size)

declare runes.simps [simp del]

definition RuneCountInString :: "string \<Rightarrow> nat" where
  "RuneCountInString s = length (runes s)"

section \<open>Encoding is decoded\<close>

lemma code_char_of [simp]: "n < 256 \<Longrightarrow> code (char_of n) = n"
  by simp

lemma decode_1: "r < 0x80 \<Longrightarrow> DecodeRune (encode_valid r @ s) = (r, 1)"
  by (simp add: encode_valid_def DecodeRune.simps(2) trailing_def second_range_def Let_def)

lemma decode_2:
  assumes "0x80 \<le> r" "r < 0x800"
  shows "DecodeRune (encode_valid r @ s) = (r, 2)"
proof -
  have "2 \<le> r div 64" "r div 64 < 32" "r mod 64 < 64" using assms by auto
  with assms show ?thesis
    by (simp add: encode_valid_def DecodeRune.simps(2) trailing_def second_range_def between_def Let_def)
qed

lemma digits64:
  fixes r :: nat
  shows "r = r div 4096 * 4096 + r div 64 mod 64 * 64 + r mod 64"
    and "r = r div 262144 * 262144 + r div 4096 mod 64 * 4096 + r div 64 mod 64 * 64 + r mod 64"
proof -
  have "r div 64 = r div 4096 * 64 + r div 64 mod 64" for r :: nat
    using div_mult_mod_eq [of "r div 64" 64] by (simp add: div_mult2_eq [symmetric])
  from this [of r] show "r = r div 4096 * 4096 + r div 64 mod 64 * 64 + r mod 64"
    using div_mult_mod_eq [of r 64] by linarith
  moreover have "r div 4096 = r div 262144 * 64 + r div 4096 mod 64"
    using div_mult_mod_eq [of "r div 4096" 64] by (simp add: div_mult2_eq [symmetric])
  ultimately show "r = r div 262144 * 262144 + r div 4096 mod 64 * 4096 + r div 64 mod 64 * 64 + r mod 64" by linarith
qed

lemma decode_3:
  assumes "0x800 \<le> r" "r < 0x10000" "is_rune r"
  shows "DecodeRune (encode_valid r @ s) = (r, 3)"
proof -
  define q where "q = r div 4096"
  define m where "m = r div 64 mod 64"
  define l where "l = r mod 64"
  have r: "r = q * 4096 + m * 64 + l" unfolding q_def m_def l_def by (rule digits64)
  have b: "q < 16" "m < 64" "l < 64" unfolding q_def m_def l_def using assms(2) by auto
  have lo: "q = 0 \<Longrightarrow> 32 \<le> m" using assms(1) r b by simp
  have hi: "q = 13 \<Longrightarrow> m < 32" using assms(3) r b by (simp add: is_rune_def)
  have "encode_valid r = [char_of (0xE0 + q), char_of (0x80 + m), char_of (0x80 + l)]"
    using assms(1,2) by (simp add: encode_valid_def q_def m_def l_def)
  with b lo hi show ?thesis
    by (auto simp: DecodeRune.simps(2) trailing_def second_range_def between_def Let_def r)
qed

lemma decode_4:
  assumes "0x10000 \<le> r" "is_rune r"
  shows "DecodeRune (encode_valid r @ s) = (r, 4)"
proof -
  define q where "q = r div 262144"
  define k where "k = r div 4096 mod 64"
  define m where "m = r div 64 mod 64"
  define l where "l = r mod 64"
  have r: "r = q * 262144 + k * 4096 + m * 64 + l" unfolding q_def k_def m_def l_def by (rule digits64)
  have le: "r \<le> 0x10FFFF" using assms by (simp add: is_rune_def)
  have b: "q < 5" "k < 64" "m < 64" "l < 64" unfolding q_def k_def m_def l_def using le by auto
  have lo: "q = 0 \<Longrightarrow> 16 \<le> k" using assms(1) r b by simp
  have hi: "q = 4 \<Longrightarrow> k < 16" using le r b by simp
  have "encode_valid r = [char_of (0xF0 + q), char_of (0x80 + k), char_of (0x80 + m), char_of (0x80 + l)]"
    using assms(1) by (simp add: encode_valid_def q_def k_def m_def l_def)
  with b lo hi show ?thesis
    by (auto simp: DecodeRune.simps(2) trailing_def second_range_def between_def Let_def r)
qed

lemma length_encode_valid:
  "length (encode_valid r) = (if r < 0x80 then 1 else if r < 0x800 then 2 else if r < 0x10000 then 3 else 4)"
  by (simp add: encode_valid_def)

lemma DecodeRune_encode: "is_rune r \<Longrightarrow> DecodeRune (encode_valid r @ s) = (r, length (encode_valid r))"
  using decode_1 [of r s] decode_2 [of r s] decode_3 [of r s] decode_4 [of r s]
  by (simp add: length_encode_valid)

lemma runes_encode: "list_all is_rune rs \<Longrightarrow> runes (concat (map AppendRune rs)) = rs"
proof (induction rs)
  case (Cons r rs)
  then have "AppendRune r = encode_valid r" "encode_valid r \<noteq> []" by (auto simp: AppendRune_def encode_valid_def)
  with Cons DecodeRune_encode [of r "concat (map AppendRune rs)"] show ?case
    by (subst runes.simps) simp
qed (simp add: runes.simps)

lemma DecodeRune_ascii: "code c < 0x80 \<Longrightarrow> DecodeRune (c # s) = (code c, 1)"
  using decode_1 [of "code c" s] by (simp add: encode_valid_def)

lemma runes_ascii: "list_all (\<lambda>c. code c < 0x80) s \<Longrightarrow> runes s = map of_char s"
proof (induction s)
  case (Cons c s)
  then show ?case using DecodeRune_ascii [of c s] by (subst runes.simps) simp
qed (simp add: runes.simps)

lemma RuneCountInString_ascii: "list_all (\<lambda>c. code c < 0x80) s \<Longrightarrow> RuneCountInString s = length s"
  by (simp add: RuneCountInString_def runes_ascii)

text \<open>Valid UTF-8: the encoding of some runes.\<close>

definition valid_utf8 :: "string \<Rightarrow> bool" where
  "valid_utf8 s \<longleftrightarrow> list_all is_rune (runes s) \<and> concat (map AppendRune (runes s)) = s"

lemma valid_utf8_iff: "valid_utf8 s \<longleftrightarrow> (\<exists>rs. list_all is_rune rs \<and> s = concat (map AppendRune rs))"
  using runes_encode by (auto simp: valid_utf8_def)

end
