(* ===== verification/Json.thy ===== *)
theory Json
  imports Utf8
begin

text \<open>
  The JSON texts the server reads (\<open>server.json\<close>, \<open>operators.json\<close>), as \<open>encoding/json\<close> takes them: white
  space, literals, numbers, strings with their escapes, arrays and objects, nested at most 10000 deep,
  with nothing but white space after the value. \<open>None\<close> is a syntax error; \<open>json.Unmarshal\<close> finds it
  before it changes anything.

  Strings are decoded: escapes are replaced, two \<open>\u\<close> escapes that are a surrogate pair stand for one
  character, other surrogates and bytes that are not UTF-8 for U+FFFD. Numbers keep their text. Members
  of an object keep their order, duplicates included.

  The lemmas, used by the theories of the code that reads these files: a printed value is read back, and
  what is read is well-formed.
\<close>

datatype json =
    JNull | JBool bool | JNumber string | JString string | JArray "json list"
  | JObject "(string \<times> json) list"

section \<open>Lexical elements\<close>

definition is_ws :: "char \<Rightarrow> bool" where
  "is_ws c \<longleftrightarrow> c \<in> {CHR 0x20, CHR 0x09, CHR 0x0D, CHR 0x0A}"

definition skip_ws :: "string \<Rightarrow> string" where
  "skip_ws s = dropWhile is_ws s"

definition is_digit :: "char \<Rightarrow> bool" where
  "is_digit c \<longleftrightarrow> 48 \<le> (of_char c :: nat) \<and> (of_char c :: nat) \<le> 57"

definition span :: "('a \<Rightarrow> bool) \<Rightarrow> 'a list \<Rightarrow> 'a list \<times> 'a list" where
  "span P xs = (takeWhile P xs, dropWhile P xs)"

definition digits1 :: "string \<Rightarrow> (string \<times> string) option" where
  "digits1 s = (case span is_digit s of (ds, rest) \<Rightarrow> if ds = [] then None else Some (ds, rest))"

text \<open>The parts of a number: sign, integer without superfluous zeros, fraction, exponent.\<close>

definition num_int :: "string \<Rightarrow> (string \<times> string) option" where
  "num_int s =
     (case s of
        [] \<Rightarrow> None
      | c # cs \<Rightarrow> if c = CHR ''0'' then Some ([c], cs) else digits1 s)"

definition num_frac :: "string \<Rightarrow> (string \<times> string) option" where
  "num_frac s =
     (case s of
        [] \<Rightarrow> Some ([], [])
      | c # cs \<Rightarrow>
          if c = CHR ''.'' then map_option (\<lambda>(ds, rest). (c # ds, rest)) (digits1 cs) else Some ([], s))"

definition num_exp :: "string \<Rightarrow> (string \<times> string) option" where
  "num_exp s =
     (case s of
        [] \<Rightarrow> Some ([], [])
      | c # cs \<Rightarrow>
          if c = CHR ''e'' \<or> c = CHR ''E''
          then (case cs of
                  [] \<Rightarrow> None
                | d # ds \<Rightarrow>
                    if d = CHR ''+'' \<or> d = CHR ''-''
                    then map_option (\<lambda>(n, rest). (c # d # n, rest)) (digits1 ds)
                    else map_option (\<lambda>(n, rest). (c # n, rest)) (digits1 cs))
          else Some ([], s))"

definition num_sign :: "string \<Rightarrow> string \<times> string" where
  "num_sign s = (case s of [] \<Rightarrow> ([], []) | c # cs \<Rightarrow> if c = CHR ''-'' then ([c], cs) else ([], s))"

definition lex_number :: "string \<Rightarrow> (string \<times> string) option" where
  "lex_number s =
     (case num_sign s of (sg, s1) \<Rightarrow>
        case num_int s1 of None \<Rightarrow> None | Some (i, s2) \<Rightarrow>
        case num_frac s2 of None \<Rightarrow> None | Some (f, s3) \<Rightarrow>
        case num_exp s3 of None \<Rightarrow> None | Some (e, s4) \<Rightarrow> Some (sg @ i @ f @ e, s4))"

section \<open>Strings\<close>

definition hex_value :: "char \<Rightarrow> nat option" where
  "hex_value c =
     (let n = code c in
      if 48 \<le> n \<and> n \<le> 57 then Some (n - 48) else if 97 \<le> n \<and> n \<le> 102 then Some (n - 87)
      else if 65 \<le> n \<and> n \<le> 70 then Some (n - 55) else None)"

definition hex4 :: "char \<Rightarrow> char \<Rightarrow> char \<Rightarrow> char \<Rightarrow> nat option" where
  "hex4 a b c d =
     (case (hex_value a, hex_value b, hex_value c, hex_value d) of
        (Some w, Some x, Some y, Some z) \<Rightarrow> Some (((w * 16 + x) * 16 + y) * 16 + z)
      | _ \<Rightarrow> None)"

definition getu4 :: "string \<Rightarrow> nat option" where
  "getu4 s =
     (case s of
        e # u # a # b # c # d # _ \<Rightarrow> if e = CHR 0x5C \<and> u = CHR ''u'' then hex4 a b c d else None
      | _ \<Rightarrow> None)"

definition utf16_pair :: "nat \<Rightarrow> nat option \<Rightarrow> nat option" where
  "utf16_pair r1 r2 =
     (case r2 of
        Some l \<Rightarrow> if 0xD800 \<le> r1 \<and> r1 < 0xDC00 \<and> 0xDC00 \<le> l \<and> l < 0xE000
                  then Some ((r1 - 0xD800) * 1024 + (l - 0xDC00) + 0x10000) else None
      | None \<Rightarrow> None)"

definition simple_escape :: "char \<Rightarrow> char option" where
  "simple_escape c =
     (if c \<in> {CHR 0x22, CHR 0x5C, CHR ''/''} then Some c
      else if c = CHR ''b'' then Some CHR 0x08 else if c = CHR ''f'' then Some CHR 0x0C
      else if c = CHR ''n'' then Some CHR 0x0A else if c = CHR ''r'' then Some CHR 0x0D
      else if c = CHR ''t'' then Some CHR 0x09 else None)"

text \<open>\<open>s\<close> is what follows the opening quote.\<close>

function lex_string :: "string \<Rightarrow> (string \<times> string) option" where
  "lex_string s =
     (case s of
        [] \<Rightarrow> None
      | c # cs \<Rightarrow>
          if c = CHR 0x22 then Some ([], cs)
          else if c = CHR 0x5C
          then (case getu4 s of
                  Some r \<Rightarrow>
                    (case utf16_pair r (getu4 (drop 6 s)) of
                       Some r' \<Rightarrow> map_option (\<lambda>(t, rest). (AppendRune r' @ t, rest)) (lex_string (drop 12 s))
                     | None \<Rightarrow> map_option (\<lambda>(t, rest). (AppendRune r @ t, rest)) (lex_string (drop 6 s)))
                | None \<Rightarrow>
                    (case cs of
                       [] \<Rightarrow> None
                     | d # ds \<Rightarrow>
                         (case simple_escape d of
                            Some x \<Rightarrow> map_option (\<lambda>(t, rest). (x # t, rest)) (lex_string ds)
                          | None \<Rightarrow> None)))
          else if code c < 0x20 then None
          else map_option (\<lambda>(t, rest). (AppendRune (fst (DecodeRune s)) @ t, rest))
                 (lex_string (drop (snd (DecodeRune s)) s)))"
  by pat_completeness auto
termination
  by (relation "measure length") (auto simp: DecodeRune_size)

declare lex_string.simps [simp del]

lemma skip_ws_length: "length (skip_ws s) \<le> length s"
  by (simp add: skip_ws_def length_dropWhile_le)

lemma skip_ws_Cons: "skip_ws s = c # r \<Longrightarrow> length r < length s"
  using skip_ws_length [of s] by simp

lemma lex_string_step:
  assumes "lex_string s = Some (t, rest)"
  obtains "s \<noteq> []" "rest = tl s" | k t' where "0 < k" "k \<le> length s" "lex_string (drop k s) = Some (t', rest)"
proof (cases s)
  case Nil
  with assms show ?thesis by (simp add: lex_string.simps)
next
  case (Cons c cs)
  note eq = assms [unfolded lex_string.simps [of s]]
  have rune: "0 < snd (DecodeRune s)" "snd (DecodeRune s) \<le> length s" using DecodeRune_size [of s] Cons by simp_all
  have u4: "6 \<le> length s" if "getu4 s = Some r" for r s
    using that by (auto simp: getu4_def split: list.splits if_splits)
  have pair: "12 \<le> length s" if "getu4 s = Some r" "utf16_pair r (getu4 (drop 6 s)) = Some q" for r q
    using that u4 [of "drop 6 s"] by (auto simp: utf16_pair_def split: option.splits)
  show ?thesis
  proof (cases "c = CHR 0x5C")
    case True
    show ?thesis
    proof (cases "getu4 s")
      case None
      with True eq Cons that(2) [of 2] show ?thesis by (auto split: list.splits option.splits)
    next
      case (Some r)
      with True eq Cons that(2) [of 6] that(2) [of 12] u4 [OF Some] pair [OF Some] show ?thesis by (auto split: option.splits)
    qed
  next
    case False
    with eq Cons that(1) that(2) [OF rune] show ?thesis by (auto split: if_splits)
  qed
qed

lemma lex_string_length: "lex_string s = Some (t, rest) \<Longrightarrow> length rest < length s"
proof (induction "length s" arbitrary: s t rule: less_induct)
  case less
  from less.prems show ?case
  proof (cases rule: lex_string_step)
    case (2 k t')
    then have "length (drop k s) < length s" by simp
    from less.hyps [OF this 2(3)] 2 show ?thesis by simp
  qed (cases s; simp)
qed

lemma span_length: "span P s = (a, b) \<Longrightarrow> length a + length b = length s"
  by (auto simp: span_def) (metis length_append takeWhile_dropWhile_id)

lemma digits1_length: "digits1 s = Some (a, b) \<Longrightarrow> length a + length b = length s \<and> a \<noteq> []"
  by (auto simp: digits1_def split: prod.splits if_splits dest: span_length)

lemma num_parts_length:
  "num_sign s = (a, b) \<Longrightarrow> length a + length b = length s"
  "num_int s = Some (a, b) \<Longrightarrow> length a + length b = length s \<and> a \<noteq> []"
  "num_frac s = Some (a, b) \<Longrightarrow> length a + length b = length s"
  "num_exp s = Some (a, b) \<Longrightarrow> length a + length b = length s"
  by (auto simp: num_sign_def num_int_def num_frac_def num_exp_def split: list.splits if_splits dest!: digits1_length)

lemma lex_number_length:
  assumes "lex_number s = Some (n, rest)"
  shows "length rest < length s"
proof -
  obtain sg s1 i s2 f s3 e where "num_sign s = (sg, s1)" "num_int s1 = Some (i, s2)" "num_frac s2 = Some (f, s3)"
    "num_exp s3 = Some (e, rest)"
    using assms by (auto simp: lex_number_def split: prod.splits option.splits)
  from num_parts_length(1) [OF this(1)] num_parts_length(2) [OF this(2)] num_parts_length(3) [OF this(3)]
    num_parts_length(4) [OF this(4)]
  show ?thesis by (cases i) auto
qed

section \<open>Values\<close>

definition lex_literal :: "string \<Rightarrow> (json \<times> string) option" where
  "lex_literal s =
     (if take 4 s = ''true'' then Some (JBool True, drop 4 s)
      else if take 5 s = ''false'' then Some (JBool False, drop 5 s)
      else if take 4 s = ''null'' then Some (JNull, drop 4 s) else None)"

definition max_depth :: nat where
  "max_depth = 10000"

text \<open>\<open>d\<close> is the number of arrays and objects already open; \<open>s\<close> does not begin with white space.\<close>

function parse_value :: "nat \<Rightarrow> string \<Rightarrow> (json \<times> string) option"
  and parse_elements :: "nat \<Rightarrow> string \<Rightarrow> (json list \<times> string) option"
  and parse_members :: "nat \<Rightarrow> string \<Rightarrow> ((string \<times> json) list \<times> string) option"
where
  "parse_value d s =
     (case s of
        [] \<Rightarrow> None
      | c # cs \<Rightarrow>
          if c = CHR ''{'' then
            (if d \<ge> max_depth then None
             else case skip_ws cs of
                    [] \<Rightarrow> None
                  | c1 # r \<Rightarrow>
                      if c1 = CHR ''}'' then Some (JObject [], r)
                      else map_option (\<lambda>(ms, r). (JObject ms, r)) (parse_members (Suc d) (c1 # r)))
          else if c = CHR ''['' then
            (if d \<ge> max_depth then None
             else case skip_ws cs of
                    [] \<Rightarrow> None
                  | c1 # r \<Rightarrow>
                      if c1 = CHR '']'' then Some (JArray [], r)
                      else map_option (\<lambda>(vs, r). (JArray vs, r)) (parse_elements (Suc d) (c1 # r)))
          else if c = CHR 0x22 then map_option (\<lambda>(t, r). (JString t, r)) (lex_string cs)
          else if c = CHR ''-'' \<or> is_digit c then map_option (\<lambda>(n, r). (JNumber n, r)) (lex_number s)
          else lex_literal s)"
| "parse_elements d s =
     (case parse_value d s of
        None \<Rightarrow> None
      | Some (v, r) \<Rightarrow>
          (case skip_ws r of
             [] \<Rightarrow> None
           | c # r1 \<Rightarrow>
               if c = CHR '']'' then Some ([v], r1)
               else if c = CHR '','' then map_option (\<lambda>(vs, r2). (v # vs, r2)) (parse_elements d (skip_ws r1))
               else None))"
| "parse_members d s =
     (case s of
        [] \<Rightarrow> None
      | c # cs \<Rightarrow>
          if c \<noteq> CHR 0x22 then None
          else case lex_string cs of
            None \<Rightarrow> None
          | Some (k, r) \<Rightarrow>
              (case skip_ws r of
                 [] \<Rightarrow> None
               | c1 # r1 \<Rightarrow>
                   if c1 \<noteq> CHR '':'' then None
                   else case parse_value d (skip_ws r1) of
                     None \<Rightarrow> None
                   | Some (v, r2) \<Rightarrow>
                       (case skip_ws r2 of
                          [] \<Rightarrow> None
                        | c2 # r3 \<Rightarrow>
                            if c2 = CHR ''}'' then Some ([(k, v)], r3)
                            else if c2 = CHR '',''
                            then map_option (\<lambda>(ms, r4). ((k, v) # ms, r4)) (parse_members d (skip_ws r3))
                            else None)))"
  by pat_completeness auto

lemma lex_literal_length: "lex_literal s = Some (v, r) \<Longrightarrow> s \<noteq> [] \<Longrightarrow> length r < length s"
  by (auto simp: lex_literal_def split: if_splits)

lemma parse_shorter:
  "parse_value_parse_elements_parse_members_dom (Inl (d, s)) \<Longrightarrow> parse_value d s = Some (v, r) \<Longrightarrow> length r < length s"
  "parse_value_parse_elements_parse_members_dom (Inr (Inl (d, s))) \<Longrightarrow> parse_elements d s = Some (vs, r) \<Longrightarrow> length r < length s"
  "parse_value_parse_elements_parse_members_dom (Inr (Inr (d, s))) \<Longrightarrow> parse_members d s = Some (ms, r) \<Longrightarrow> length r < length s"
proof (induction d s and d s and d s arbitrary: v r and vs r and ms r rule: parse_value_parse_elements_parse_members.pinduct)
  case (1 d s)
  then obtain c cs where Cons: "s = c # cs" by (cases s) (simp_all add: parse_value.psimps)
  note prems = "1.prems" [unfolded parse_value.psimps [OF "1.hyps"]]
  have ws: "length t < length cs" if "skip_ws cs = c1 # t" for c1 t using skip_ws_Cons [OF that] .
  consider "c = CHR ''{''" | "c = CHR ''[''" | "c = CHR 0x22" | "c \<notin> {CHR ''{'', CHR ''['', CHR 0x22}" by blast
  then show ?case
  proof cases
    case 1
    then obtain c1 t where t: "\<not> max_depth \<le> d" "skip_ws cs = c1 # t"
      using prems Cons by (auto split: if_splits list.splits)
    show ?thesis
    proof (cases "c1 = CHR ''}''")
      case True
      with prems Cons 1 t ws [OF t(2)] show ?thesis by auto
    next
      case False
      then obtain ms where "parse_members (Suc d) (c1 # t) = Some (ms, r)" using prems Cons 1 t by auto
      from "1.IH"(1) [OF Cons 1 t False this] ws [OF t(2)] Cons show ?thesis by simp
    qed
  next
    case 2
    then obtain c1 t where t: "\<not> max_depth \<le> d" "skip_ws cs = c1 # t"
      using prems Cons by (auto split: if_splits list.splits)
    show ?thesis
    proof (cases "c1 = CHR '']''")
      case True
      with prems Cons 2 t ws [OF t(2)] show ?thesis by auto
    next
      case False
      then obtain vs where "parse_elements (Suc d) (c1 # t) = Some (vs, r)" using prems Cons 2 t by auto
      from "1.IH"(2) [OF Cons _ 2 t False this] 2 ws [OF t(2)] Cons show ?thesis by simp
    qed
  next
    case 3
    with prems Cons lex_string_length [of cs] show ?thesis by auto
  next
    case 4
    with prems Cons lex_number_length [of s] lex_literal_length [of s] show ?thesis by (auto split: if_splits)
  qed
next
  case (2 d s)
  note prems = "2.prems" [unfolded parse_elements.psimps [OF "2.hyps"]]
  obtain v1 r1 c r2 where v1: "parse_value d s = Some (v1, r1)" "skip_ws r1 = c # r2"
    using prems by (auto split: option.splits list.splits)
  have l: "length r2 < length s" using "2.IH"(1) [OF v1(1)] skip_ws_Cons [OF v1(2)] by simp
  show ?case
  proof (cases "c = CHR '']''")
    case True
    with prems v1 l show ?thesis by auto
  next
    case False
    then obtain vs where c: "c = CHR '',''" and vs: "parse_elements d (skip_ws r2) = Some (vs, r)"
      using prems v1 by (auto split: if_splits)
    from "2.IH"(2) [OF v1(1) refl v1(2) False c vs] l skip_ws_length [of r2] show ?thesis by simp
  qed
next
  case (3 d s)
  note prems = "3.prems" [unfolded parse_members.psimps [OF "3.hyps"]]
  obtain c cs k r0 c1 r1 v r2 c2 r3 where e: "s = c # cs" "c = CHR 0x22" "lex_string cs = Some (k, r0)"
    "skip_ws r0 = c1 # r1" "c1 = CHR '':''" "parse_value d (skip_ws r1) = Some (v, r2)" "skip_ws r2 = c2 # r3"
    using prems by (auto split: option.splits list.splits if_splits)
  have "length r2 < length (skip_ws r1)" using "3.IH"(1) [OF e(1) _ e(3) refl e(4) _ e(6)] e by simp
  with skip_ws_length [of r1] skip_ws_Cons [OF e(4)] lex_string_length [OF e(3)] skip_ws_Cons [OF e(7)]
  have l: "length r3 < length s" using e(1) by simp
  show ?case
  proof (cases "c2 = CHR ''}''")
    case True
    with prems e l show ?thesis by auto
  next
    case False
    then obtain ms where c: "c2 = CHR '',''" and ms: "parse_members d (skip_ws r3) = Some (ms, r)"
      using prems e by (auto split: if_splits)
    from "3.IH"(2) [OF e(1) _ e(3) refl e(4) _ e(6) refl e(7) False c ms] e l skip_ws_length [of r3] show ?thesis by simp
  qed
qed

lemma parse_terminates: "All parse_value_parse_elements_parse_members_dom"
proof (relation "measure (\<lambda>x. case x of Inl (d, s) \<Rightarrow> 2 * length s | Inr (Inl (d, s)) \<Rightarrow> 2 * length s + 1 | Inr (Inr (d, s)) \<Rightarrow> 2 * length s + 1)", goal_cases)
  case 1 show ?case by simp
next
  case (2 d s c cs c1 r)
  then show ?case using skip_ws_length [of cs] by simp
next
  case (3 d s c cs c1 r)
  then show ?case using skip_ws_length [of cs] by simp
next
  case 4
  then show ?case by simp
next
  case (5 d s x v r c r1)
  then have "length r < length s" using parse_shorter(1) [of d s v r] by simp
  with 5 skip_ws_length [of r1] skip_ws_Cons [of r c r1] show ?case by simp
next
  case (6 d s c cs x k r c1 r1)
  then have "length r < length cs" using lex_string_length [of cs k r] by simp
  with 6 skip_ws_length [of r1] skip_ws_Cons [of r c1 r1] show ?case by simp
next
  case (7 d s c cs x k r c1 r1 y v r2 c2 r3)
  then have "length r < length cs" "length r2 < length (skip_ws r1)"
    using lex_string_length [of cs k r] parse_shorter(1) [of d "skip_ws r1" v r2] by simp_all
  with 7 skip_ws_length [of r1] skip_ws_Cons [of r c1 r1] skip_ws_Cons [of r2 c2 r3] skip_ws_length [of r3] show ?case by simp
qed

termination parse_value
  by (rule parse_terminates)

declare parse_value.simps [simp del] parse_elements.simps [simp del] parse_members.simps [simp del]

definition parse_text :: "string \<Rightarrow> json option" where
  "parse_text s =
     (case parse_value 0 (skip_ws s) of
        None \<Rightarrow> None
      | Some (v, r) \<Rightarrow> if skip_ws r = [] then Some v else None)"

text \<open>The value of a file, \<open>json.Unmarshal\<close>'s first argument.\<close>

definition parse_json :: "bytes \<Rightarrow> json option" where
  "parse_json data = parse_text (map byte_char data)"

section \<open>Printing\<close>

definition hex_char :: "nat \<Rightarrow> char" where
  "hex_char d = (if d < 10 then char_of (48 + d) else char_of (87 + d))"

definition quote_char :: "char \<Rightarrow> string" where
  "quote_char c =
     (if c = CHR 0x22 \<or> c = CHR 0x5C then [CHR 0x5C, c]
      else if code c < 0x20 then [CHR 0x5C, CHR ''u'', CHR ''0'', CHR ''0'', hex_char (code c div 16), hex_char (code c mod 16)]
      else [c])"

definition quote_body :: "string \<Rightarrow> string" where
  "quote_body s = concat (map quote_char s)"

definition quote :: "string \<Rightarrow> string" where
  "quote s = CHR 0x22 # quote_body s @ [CHR 0x22]"

fun format_json :: "json \<Rightarrow> string"
  and format_elements :: "json list \<Rightarrow> string"
  and format_members :: "(string \<times> json) list \<Rightarrow> string"
where
  "format_json JNull = ''null''"
| "format_json (JBool b) = (if b then ''true'' else ''false'')"
| "format_json (JNumber n) = n"
| "format_json (JString s) = quote s"
| "format_json (JArray vs) = ''['' @ format_elements vs @ '']''"
| "format_json (JObject ms) = ''{'' @ format_members ms @ ''}''"
| "format_elements [] = []"
| "format_elements (v # vs) = format_json v @ (if vs = [] then [] else '','' @ format_elements vs)"
| "format_members [] = []"
| "format_members ((k, v) # ms) = quote k @ '':'' @ format_json v @ (if ms = [] then [] else '','' @ format_members ms)"

text \<open>Values that have a text: strings are UTF-8, numbers follow the grammar, \<open>d\<close> levels are open already.\<close>

definition wf_number :: "string \<Rightarrow> bool" where
  "wf_number n \<longleftrightarrow> lex_number n = Some (n, [])"

fun wf_json :: "nat \<Rightarrow> json \<Rightarrow> bool" where
  "wf_json d JNull = True"
| "wf_json d (JBool b) = True"
| "wf_json d (JNumber n) = wf_number n"
| "wf_json d (JString s) = valid_utf8 s"
| "wf_json d (JArray vs) = (d < max_depth \<and> (\<forall>v\<in>set vs. wf_json (Suc d) v))"
| "wf_json d (JObject ms) = (d < max_depth \<and> (\<forall>m\<in>set ms. valid_utf8 (fst m) \<and> wf_json (Suc d) (snd m)))"

section \<open>Strings are read back\<close>

lemma hex_value_hex_char: "d < 16 \<Longrightarrow> hex_value (hex_char d) = Some d"
  by (auto simp: hex_value_def hex_char_def Let_def)

lemma hex_char_not_surrogate: "n < 0x20 \<Longrightarrow> hex4 CHR ''0'' CHR ''0'' (hex_char (n div 16)) (hex_char (n mod 16)) = Some n"
proof -
  assume "n < 0x20"
  moreover have "hex_value CHR ''0'' = Some 0" by (simp add: hex_value_def)
  ultimately show ?thesis by (simp add: hex4_def hex_value_hex_char)
qed

lemma AppendRune_ascii: "code c < 0x80 \<Longrightarrow> AppendRune (code c) = [c]"
  by (simp add: AppendRune_def is_rune_def encode_valid_def)

lemma lex_quote_ascii:
  assumes "code c < 0x80" "lex_string s = Some (t, rest)"
  shows "lex_string (quote_char c @ s) = Some (c # t, rest)"
proof -
  consider "c = CHR 0x22 \<or> c = CHR 0x5C" | "code c < 0x20" | "c \<noteq> CHR 0x22" "c \<noteq> CHR 0x5C" "\<not> code c < 0x20"
    by blast
  then show ?thesis
  proof cases
    case 1
    have g: "getu4 (CHR 0x5C # c # s) = None" using 1 by (auto simp: getu4_def split: list.splits)
    from 1 show ?thesis
      by (subst lex_string.simps) (auto simp: quote_char_def g simple_escape_def assms(2))
  next
    case 2
    then have ne: "c \<noteq> CHR 0x22" "c \<noteq> CHR 0x5C" by auto
    let ?s = "CHR 0x5C # CHR ''u'' # CHR ''0'' # CHR ''0'' # hex_char (code c div 16) # hex_char (code c mod 16) # s"
    have "getu4 ?s = Some (code c)" using hex_char_not_surrogate [OF 2] by (simp add: getu4_def)
    moreover have "utf16_pair (code c) x = None" for x using 2 by (simp add: utf16_pair_def split: option.splits)
    ultimately have "lex_string ?s = Some (c # t, rest)"
      using assms by (subst lex_string.simps) (simp add: AppendRune_ascii)
    with 2 ne show ?thesis by (simp add: quote_char_def)
  next
    case 3
    then have "lex_string (c # s) = Some (c # t, rest)"
      using assms DecodeRune_ascii [of c s] by (subst lex_string.simps) (simp add: AppendRune_ascii)
    with 3 show ?thesis by (simp add: quote_char_def)
  qed
qed

lemma encode_valid_high: "0x80 \<le> r \<Longrightarrow> is_rune r \<Longrightarrow> \<forall>c\<in>set (encode_valid r). 0x80 \<le> code c"
  by (auto simp: encode_valid_def is_rune_def)

lemma quote_body_high: "\<forall>c\<in>set s. 0x80 \<le> code c \<Longrightarrow> quote_body s = s"
proof (induction s)
  case (Cons c s)
  then have "quote_char c = [c]" by (auto simp: quote_char_def)
  with Cons show ?case by (simp add: quote_body_def)
qed (simp add: quote_body_def)

lemma lex_quote_rune:
  assumes "is_rune r" "lex_string s = Some (t, rest)"
  shows "lex_string (quote_body (AppendRune r) @ s) = Some (AppendRune r @ t, rest)"
proof (cases "r < 0x80")
  case True
  then have "AppendRune r = [char_of r]" using assms(1) by (simp add: AppendRune_def encode_valid_def)
  with True assms(2) show ?thesis using lex_quote_ascii [of "char_of r" s t rest] by (simp add: quote_body_def)
next
  case False
  have e: "AppendRune r = encode_valid r" using assms(1) by (simp add: AppendRune_def)
  have high: "\<forall>c\<in>set (encode_valid r). 0x80 \<le> code c" using False assms(1) by (intro encode_valid_high) auto
  obtain c cs where c: "encode_valid r = c # cs" by (cases "encode_valid r") (auto simp: encode_valid_def split: if_splits)
  with high have "0x80 \<le> code c" by simp
  then have ne: "c \<noteq> CHR 0x22" "c \<noteq> CHR 0x5C" "\<not> code c < 0x20" by auto
  have d: "DecodeRune (encode_valid r @ s) = (r, length (encode_valid r))" using assms(1) by (rule DecodeRune_encode)
  have "lex_string (encode_valid r @ s) = Some (AppendRune r @ t, rest)"
    using c ne d assms(2) by (subst lex_string.simps) simp
  with e quote_body_high [OF high] show ?thesis by simp
qed

lemma lex_quote_runes:
  "list_all is_rune rs \<Longrightarrow> lex_string (quote_body (concat (map AppendRune rs)) @ CHR 0x22 # rest) =
     Some (concat (map AppendRune rs), rest)"
proof (induction rs)
  case Nil
  show ?case by (subst lex_string.simps) (simp add: quote_body_def)
next
  case (Cons r rs)
  then show ?case using lex_quote_rune [of r "quote_body (concat (map AppendRune rs)) @ CHR 0x22 # rest"]
    by (simp add: quote_body_def)
qed

lemma lex_quote: "valid_utf8 s \<Longrightarrow> lex_string (quote_body s @ CHR 0x22 # rest) = Some (s, rest)"
  using lex_quote_runes by (auto simp: valid_utf8_iff)

section \<open>Numbers are read back\<close>

text \<open>What may follow a value in a printed text.\<close>

definition delimited :: "string \<Rightarrow> bool" where
  "delimited rest \<longleftrightarrow> rest = [] \<or> hd rest \<in> {CHR '','', CHR '']'', CHR ''}''} \<or> is_ws (hd rest)"

lemma delimited_not_digit: "delimited rest \<Longrightarrow> rest \<noteq> [] \<Longrightarrow> \<not> is_digit (hd rest)"
  by (auto simp: delimited_def is_digit_def is_ws_def)

lemma digits1_append:
  assumes "digits1 s = Some (a, b)" "delimited rest"
  shows "digits1 (s @ rest) = Some (a, b @ rest)"
proof -
  have s: "s = a @ b" "a \<noteq> []" "\<forall>c\<in>set a. is_digit c" "b \<noteq> [] \<Longrightarrow> \<not> is_digit (hd b)"
    using assms(1) by (auto simp: digits1_def span_def split: if_splits dest: set_takeWhileD hd_dropWhile)
  have "b @ rest \<noteq> [] \<Longrightarrow> \<not> is_digit (hd (b @ rest))"
    using s(4) delimited_not_digit [OF assms(2)] by (cases b) auto
  then have "takeWhile is_digit (b @ rest) = []" "dropWhile is_digit (b @ rest) = b @ rest"
    by (cases "b @ rest"; simp)+
  with s show ?thesis
    by (simp add: digits1_def span_def takeWhile_append2 dropWhile_append2)
qed

lemma num_parts_append:
  assumes "delimited rest"
  shows "num_int s = Some (a, b) \<Longrightarrow> num_int (s @ rest) = Some (a, b @ rest)"
    and "num_frac s = Some (a, b) \<Longrightarrow> num_frac (s @ rest) = Some (a, b @ rest)"
    and "num_exp s = Some (a, b) \<Longrightarrow> num_exp (s @ rest) = Some (a, b @ rest)"
proof -
  show "num_int s = Some (a, b) \<Longrightarrow> num_int (s @ rest) = Some (a, b @ rest)"
    using digits1_append [of "hd s # tl s", OF _ assms] by (cases s) (auto simp: num_int_def split: if_splits)
  have d: "hd rest \<noteq> CHR ''.''" "hd rest \<noteq> CHR ''e''" "hd rest \<noteq> CHR ''E''" if "rest \<noteq> []"
    using assms that by (auto simp: delimited_def is_ws_def)
  show "num_frac s = Some (a, b) \<Longrightarrow> num_frac (s @ rest) = Some (a, b @ rest)"
    using digits1_append [OF _ assms] d(1)
    by (cases rest) (auto simp: num_frac_def split: list.splits if_splits)
  show "num_exp s = Some (a, b) \<Longrightarrow> num_exp (s @ rest) = Some (a, b @ rest)"
    using digits1_append [OF _ assms] digits1_append [of "hd (tl s) # tl (tl s)", OF _ assms] d(2,3)
    by (cases rest) (auto simp: num_exp_def split: list.splits if_splits)
qed

lemma lex_number_append:
  assumes "wf_number n" "delimited rest"
  shows "lex_number (n @ rest) = Some (n, rest)"
proof -
  obtain sg s1 i s2 f s3 e where p: "num_sign n = (sg, s1)" "num_int s1 = Some (i, s2)" "num_frac s2 = Some (f, s3)"
    "num_exp s3 = Some (e, [])" "n = sg @ i @ f @ e"
    using assms(1) by (auto simp: wf_number_def lex_number_def split: prod.splits option.splits)
  then have "n \<noteq> []" using num_parts_length(2) [OF p(2)] by auto
  then have "num_sign (n @ rest) = (sg, s1 @ rest)" using p(1) by (cases n) (auto simp: num_sign_def split: if_splits)
  with p num_parts_append [OF assms(2)] show ?thesis by (simp add: lex_number_def)
qed

lemma wf_number_start:
  assumes "wf_number n"
  obtains c cs where "n = c # cs" "c = CHR ''-'' \<or> is_digit c"
proof (cases n)
  case Nil
  with assms show ?thesis by (simp add: wf_number_def lex_number_def num_sign_def num_int_def)
next
  case (Cons c cs)
  have "c = CHR ''-'' \<or> is_digit c"
  proof (rule ccontr)
    assume no: "\<not> (c = CHR ''-'' \<or> is_digit c)"
    moreover from no have "c \<noteq> CHR ''0''" by (auto simp: is_digit_def)
    ultimately have "lex_number n = None"
      using Cons by (simp add: lex_number_def num_sign_def num_int_def digits1_def span_def)
    with assms show False by (simp add: wf_number_def)
  qed
  with Cons that show ?thesis by blast
qed

section \<open>Values are read back\<close>

definition value_start :: "string \<Rightarrow> bool" where
  "value_start s \<longleftrightarrow> s \<noteq> [] \<and> \<not> is_ws (hd s) \<and> hd s \<noteq> CHR '']''"

lemma digit_not_ws: "is_digit c \<Longrightarrow> \<not> is_ws c \<and> c \<notin> {CHR '']'', CHR ''['', CHR ''{'', CHR 0x22}"
  by (auto simp: is_digit_def is_ws_def)

lemma format_json_start: "wf_json d v \<Longrightarrow> value_start (format_json v)"
proof (cases v)
  case (JNumber n)
  moreover assume "wf_json d v"
  ultimately show ?thesis
    by (auto simp: value_start_def is_ws_def dest: digit_not_ws elim!: wf_number_start)
qed (auto simp: value_start_def is_ws_def quote_def)

lemma skip_ws_start: "value_start s \<Longrightarrow> skip_ws (s @ t) = s @ t"
  by (cases s) (simp_all add: value_start_def skip_ws_def)

lemma skip_ws_nonws: "\<not> is_ws c \<Longrightarrow> skip_ws (c # s) = c # s"
  by (simp add: skip_ws_def)

lemma not_ws [simp]: "\<not> is_ws CHR '':''" "\<not> is_ws CHR '',''" "\<not> is_ws CHR '']''" "\<not> is_ws CHR ''}''" "\<not> is_ws CHR 0x22"
  by (simp_all add: is_ws_def)

lemma not_digit_start [simp]:
  "\<not> is_digit CHR ''n''" "\<not> is_digit CHR ''t''" "\<not> is_digit CHR ''f''"
  by (simp_all add: is_digit_def)

lemma parse_format:
  "wf_json d v \<Longrightarrow> delimited rest \<Longrightarrow> parse_value d (format_json v @ rest) = Some (v, rest)"
  "\<forall>v\<in>set vs. wf_json d v \<Longrightarrow> vs \<noteq> [] \<Longrightarrow> parse_elements d (format_elements vs @ CHR '']'' # rest) = Some (vs, rest)"
  "\<forall>m\<in>set ms. valid_utf8 (fst m) \<and> wf_json d (snd m) \<Longrightarrow> ms \<noteq> [] \<Longrightarrow>
     parse_members d (format_members ms @ CHR ''}'' # rest) = Some (ms, rest)"
proof (induction v and vs and ms arbitrary: d rest and d rest and d rest rule: format_json_format_elements_format_members.induct)
  case 1
  then show ?case by (simp add: parse_value.simps lex_literal_def)
next
  case (2 b)
  then show ?case by (simp add: parse_value.simps lex_literal_def)
next
  case (3 n)
  then obtain c cs where "n = c # cs" "c = CHR ''-'' \<or> is_digit c" by (auto elim: wf_number_start)
  with 3 lex_number_append [of n rest] show ?case by (auto simp: parse_value.simps dest: digit_not_ws)
next
  case (4 s)
  then show ?case by (simp add: parse_value.simps quote_def lex_quote)
next
  case (5 vs)
  show ?case
  proof (cases vs)
    case Nil
    with 5 show ?thesis by (simp add: parse_value.simps skip_ws_nonws)
  next
    case (Cons v us)
    then have "value_start (format_json v)" using 5 format_json_start by auto
    then obtain c t where c: "format_json v = c # t" "\<not> is_ws c" "c \<noteq> CHR '']''"
      by (cases "format_json v") (auto simp: value_start_def)
    with 5 Cons show ?thesis
      using "5.IH" [of "Suc d" rest] by (simp add: parse_value.simps [of d] skip_ws_nonws)
  qed
next
  case (6 ms)
  show ?case
  proof (cases ms)
    case Nil
    with 6 show ?thesis by (simp add: parse_value.simps skip_ws_nonws)
  next
    case (Cons m us)
    obtain k v where "m = (k, v)" by (cases m)
    with 6 Cons show ?thesis
      using "6.IH" [of "Suc d" rest] by (simp add: parse_value.simps [of d] skip_ws_nonws quote_def)
  qed
next
  case 7
  then show ?case by simp
next
  case (8 v vs)
  show ?case
  proof (cases vs)
    case Nil
    with 8 show ?thesis
      by (subst parse_elements.simps) (simp add: delimited_def skip_ws_nonws)
  next
    case (Cons u us)
    then have "skip_ws (format_elements vs @ CHR '']'' # rest) = format_elements vs @ CHR '']'' # rest"
      using 8 format_json_start [of d u] skip_ws_start by auto
    with 8 Cons show ?thesis
      by (subst parse_elements.simps) (simp add: delimited_def skip_ws_nonws)
  qed
next
  case 9
  then show ?case by simp
next
  case (10 k v ms)
  then have v: "skip_ws (format_json v @ t) = format_json v @ t" for t
    using format_json_start [of d v] by (auto intro: skip_ws_start)
  show ?case
  proof (cases ms)
    case Nil
    with 10 v show ?thesis
      by (subst parse_members.simps) (simp add: delimited_def skip_ws_nonws quote_def lex_quote)
  next
    case (Cons m us)
    then have "skip_ws (format_members ms @ CHR ''}'' # rest) = format_members ms @ CHR ''}'' # rest"
      by (cases m) (simp add: quote_def skip_ws_nonws)
    with 10 v Cons show ?thesis
      by (subst parse_members.simps) (simp add: delimited_def skip_ws_nonws quote_def lex_quote)
  qed
qed

lemma valid_utf8_ascii: "list_all (\<lambda>c. code c < 0x80) s \<Longrightarrow> valid_utf8 s"
proof -
  assume a: "list_all (\<lambda>c. code c < 0x80) s"
  then have "concat (map AppendRune (map of_char s)) = s" by (induction s) (simp_all add: AppendRune_ascii)
  moreover have "list_all is_rune (map of_char s)" using a by (auto simp: list_all_iff is_rune_def)
  ultimately show "valid_utf8 s" using a by (simp add: valid_utf8_def runes_ascii)
qed

lemma parse_text_format:
  assumes "wf_json 0 v" "list_all is_ws before" "list_all is_ws after"
  shows "parse_text (before @ format_json v @ after) = Some v"
proof -
  have ws: "skip_ws (w @ s) = skip_ws s" if "list_all is_ws w" for w s
    using that by (simp add: skip_ws_def dropWhile_append2 list_all_iff)
  have start: "skip_ws (format_json v @ after) = format_json v @ after"
    using format_json_start [OF assms(1)] by (rule skip_ws_start)
  have "delimited after" using assms(3) by (cases after) (auto simp: delimited_def)
  with parse_format(1) [OF assms(1)] have "parse_value 0 (format_json v @ after) = Some (v, after)" by blast
  then show ?thesis
    using ws [OF assms(2)] ws [OF assms(3), of "[]"] start by (simp add: parse_text_def skip_ws_def)
qed

lemma parse_json_format: "wf_json 0 v \<Longrightarrow> parse_json (string_bytes (format_json v)) = Some v"
  using parse_text_format [of v "[]" "[]"] by (simp add: parse_json_def)

interpretation json_text: text_codec format_json parse_text "wf_json 0"
  using parse_text_format [of _ "[]" "[]"] by unfold_locales simp

section \<open>Parsed values are well-formed\<close>

lemma valid_utf8_append: "valid_utf8 s \<Longrightarrow> valid_utf8 t \<Longrightarrow> valid_utf8 (s @ t)"
  unfolding valid_utf8_iff by (metis concat_append list_all_append map_append)

lemma valid_utf8_AppendRune: "valid_utf8 (AppendRune r)"
proof -
  have "AppendRune r = AppendRune (if is_rune r then r else RuneError)" "is_rune RuneError"
    by (auto simp: AppendRune_def is_rune_def RuneError_def)
  then show ?thesis unfolding valid_utf8_iff by (intro exI [of _ "[if is_rune r then r else RuneError]"]) auto
qed

lemma simple_escape_ascii: "simple_escape d = Some x \<Longrightarrow> valid_utf8 [x]"
  by (intro valid_utf8_ascii) (auto simp: simple_escape_def split: if_splits)

lemma lex_string_valid: "lex_string s = Some (t, rest) \<Longrightarrow> valid_utf8 t"
proof (induction s arbitrary: t rest rule: lex_string.induct)
  case (1 s)
  note eq = "1.prems" [unfolded lex_string.simps [of s]]
  have add: "valid_utf8 t \<Longrightarrow> valid_utf8 (AppendRune r @ t)" for r t
    by (intro valid_utf8_append valid_utf8_AppendRune)
  obtain c cs where s: "s = c # cs" using eq by (cases s) auto
  consider "c = CHR 0x22" | "c = CHR 0x5C" | "c \<notin> {CHR 0x22, CHR 0x5C}" by blast
  then show ?case
  proof cases
    case 1
    with eq s show ?thesis by (simp add: valid_utf8_ascii)
  next
    case 2
    then have c: "c \<noteq> CHR 0x22" by simp
    show ?thesis
    proof (cases "getu4 s")
      case (Some r)
      show ?thesis
      proof (cases "utf16_pair r (getu4 (drop 6 s))")
        case None
        with eq s 2 Some obtain t' where "lex_string (drop 6 s) = Some (t', rest)" "t = AppendRune r @ t'" by auto
        with "1.IH"(2) [OF s c 2 Some None] add show ?thesis by blast
      next
        case (Some q)
        with eq s 2 \<open>getu4 s = Some r\<close> obtain t' where "lex_string (drop 12 s) = Some (t', rest)" "t = AppendRune q @ t'" by auto
        with "1.IH"(3) [OF s c 2 \<open>getu4 s = Some r\<close> Some] add show ?thesis by blast
      qed
    next
      case None
      with eq s 2 obtain d ds x t' where d: "cs = d # ds" "simple_escape d = Some x" "lex_string ds = Some (t', rest)" "t = x # t'"
        by (auto split: list.splits option.splits)
      from "1.IH"(1) [OF s c 2 None d(1,2,3)] valid_utf8_append [OF simple_escape_ascii [OF d(2)]] d(4) show ?thesis by simp
    qed
  next
    case 3
    with eq s obtain t' where t': "\<not> code c < 0x20" "lex_string (drop (snd (DecodeRune s)) s) = Some (t', rest)"
      "t = AppendRune (fst (DecodeRune s)) @ t'"
      by (auto split: if_splits)
    from "1.IH"(4) [OF s _ _ t'(1,2)] 3 add t'(3) show ?thesis by blast
  qed
qed

lemma digits1_again:
  assumes "digits1 s = Some (a, b)" "x = [] \<or> \<not> is_digit (hd x)"
  shows "digits1 (a @ x) = Some (a, x)" and "is_digit (hd a)"
proof -
  have a: "a \<noteq> []" "\<forall>c\<in>set a. is_digit c"
    using assms(1) by (auto simp: digits1_def span_def split: if_splits dest: set_takeWhileD)
  have "takeWhile is_digit x = []" "dropWhile is_digit x = x" using assms(2) by (cases x; auto)+
  with a show "digits1 (a @ x) = Some (a, x)" by (simp add: digits1_def span_def takeWhile_append2 dropWhile_append2)
  show "is_digit (hd a)" using a by (cases a) auto
qed

lemma num_int_again:
  assumes "num_int s = Some (a, b)" "x = [] \<or> \<not> is_digit (hd x)"
  shows "num_int (a @ x) = Some (a, x)" and "a \<noteq> [] \<and> is_digit (hd a)"
proof -
  have "is_digit CHR ''0''" by (simp add: is_digit_def)
  obtain c cs where s: "s = c # cs" using assms(1) by (cases s) (auto simp: num_int_def)
  show "a \<noteq> [] \<and> is_digit (hd a)"
    using assms s digits1_again(2) [of s a b x] digits1_length [of s a b] \<open>is_digit CHR ''0''\<close>
    by (auto simp: num_int_def split: if_splits)
  show "num_int (a @ x) = Some (a, x)"
  proof (cases "c = CHR ''0''")
    case True
    with assms(1) s show ?thesis by (auto simp: num_int_def)
  next
    case False
    then have d: "digits1 s = Some (a, b)" using assms(1) s by (simp add: num_int_def)
    then have "hd a = c" "a \<noteq> []" using s by (auto simp: digits1_def span_def split: if_splits)
    with False digits1_again(1) [OF d assms(2)] show ?thesis by (cases a) (auto simp: num_int_def)
  qed
qed

lemma num_frac_again:
  assumes "num_frac s = Some (a, b)" "x = [] \<or> hd x = CHR ''e'' \<or> hd x = CHR ''E''"
  shows "num_frac (a @ x) = Some (a, x)" and "a = [] \<or> hd a = CHR ''.''"
proof -
  have nd: "x = [] \<or> \<not> is_digit (hd x)" using assms(2) by (auto simp: is_digit_def)
  show "num_frac (a @ x) = Some (a, x)"
    using assms digits1_again(1) [OF _ nd] by (cases x) (auto simp: num_frac_def split: list.splits if_splits)
  show "a = [] \<or> hd a = CHR ''.''" using assms(1) by (auto simp: num_frac_def split: list.splits if_splits)
qed

lemma num_exp_again:
  assumes "num_exp s = Some (a, b)"
  shows "num_exp a = Some (a, [])" and "a = [] \<or> hd a = CHR ''e'' \<or> hd a = CHR ''E''"
proof -
  have d: "digits1 t = Some (p, q) \<Longrightarrow> digits1 p = Some (p, []) \<and> p \<noteq> [] \<and> is_digit (hd p)" for t p q
    using digits1_again [of t p q "[]"] digits1_length [of t p q] by auto
  have ns: "\<not> is_digit CHR ''+''" "\<not> is_digit CHR ''-''" by (simp_all add: is_digit_def)
  show "num_exp a = Some (a, [])"
  proof (cases "a = []")
    case True
    then show ?thesis by (simp add: num_exp_def)
  next
    case False
    with assms obtain c cs where c: "s = c # cs" "c = CHR ''e'' \<or> c = CHR ''E''" "cs \<noteq> []"
      by (auto simp: num_exp_def split: list.splits if_splits)
    then obtain h t where t: "cs = h # t" by (cases cs) auto
    show ?thesis
    proof (cases "h = CHR ''+'' \<or> h = CHR ''-''")
      case True
      with assms c t obtain ds where ds: "digits1 t = Some (ds, b)" "a = c # h # ds" by (auto simp: num_exp_def)
      with d [OF ds(1)] True c(2) show ?thesis by (auto simp: num_exp_def)
    next
      case False
      with assms c t obtain ds where ds: "digits1 cs = Some (ds, b)" "a = c # ds" by (auto simp: num_exp_def)
      obtain z zs where z: "ds = z # zs" using d [OF ds(1)] by (cases ds) auto
      with d [OF ds(1)] ns have "z \<noteq> CHR ''+''" "z \<noteq> CHR ''-''" by auto
      with d [OF ds(1)] ds z c(2) show ?thesis by (auto simp: num_exp_def)
    qed
  qed
  show "a = [] \<or> hd a = CHR ''e'' \<or> hd a = CHR ''E''"
    using assms by (auto simp: num_exp_def split: list.splits if_splits)
qed

lemma lex_number_wf:
  assumes "lex_number s = Some (n, rest)"
  shows "wf_number n"
proof -
  obtain sg s1 i s2 f s3 e where p: "num_sign s = (sg, s1)" "num_int s1 = Some (i, s2)" "num_frac s2 = Some (f, s3)"
    "num_exp s3 = Some (e, rest)" "n = sg @ i @ f @ e"
    using assms by (auto simp: lex_number_def split: prod.splits option.splits)
  note e = num_exp_again [OF p(4)]
  note f = num_frac_again [OF p(3) e(2)]
  have "f @ e = [] \<or> \<not> is_digit (hd (f @ e))" using e(2) f(2) by (cases f) (auto simp: is_digit_def)
  note i = num_int_again [OF p(2) this]
  have "sg = [] \<or> sg = ''-''" using p(1) by (auto simp: num_sign_def split: list.splits if_splits)
  moreover have "hd (i @ f @ e) \<noteq> CHR ''-''" "i @ f @ e \<noteq> []" using i(2) by (auto simp: is_digit_def)
  ultimately have "num_sign n = (sg, i @ f @ e)" using p(5) by (cases "i @ f @ e") (auto simp: num_sign_def)
  with i(1) f(1) e(1) p(5) show ?thesis by (simp add: wf_number_def lex_number_def)
qed

lemma parse_value_shorter: "parse_value d s = Some (v, r) \<Longrightarrow> length r < length s"
  using parse_shorter(1) parse_terminates by blast

lemma parse_elements_Some:
  assumes "parse_elements d s = Some (vs, r)"
  obtains v us r1 where "parse_value d s = Some (v, r1)" "vs = v # us"
    "us = [] \<or> (\<exists>s'. length s' < length s \<and> parse_elements d s' = Some (us, r))"
proof -
  note eq = assms [unfolded parse_elements.simps [of d s]]
  obtain v r1 c r2 where v: "parse_value d s = Some (v, r1)" "skip_ws r1 = c # r2"
    using eq by (auto split: option.splits list.splits)
  have l: "length (skip_ws r2) < length s"
    using parse_value_shorter [OF v(1)] skip_ws_Cons [OF v(2)] skip_ws_length [of r2] by simp
  from eq v that [OF v(1)] l show ?thesis by (auto split: if_splits)
qed

lemma parse_members_Some:
  assumes "parse_members d s = Some (ms, r)"
  obtains k v us t r1 where "valid_utf8 k" "length t < length s" "parse_value d t = Some (v, r1)" "ms = (k, v) # us"
    "us = [] \<or> (\<exists>s'. length s' < length s \<and> parse_members d s' = Some (us, r))"
proof -
  note eq = assms [unfolded parse_members.simps [of d s]]
  obtain c cs k r0 c1 r1 v r2 c2 r3 where e: "s = c # cs" "lex_string cs = Some (k, r0)"
    "skip_ws r0 = c1 # r1" "parse_value d (skip_ws r1) = Some (v, r2)" "skip_ws r2 = c2 # r3"
    using eq by (auto split: option.splits list.splits if_splits)
  have l1: "length (skip_ws r1) < length s"
    using e(1) lex_string_length [OF e(2)] skip_ws_Cons [OF e(3)] skip_ws_length [of r1] by simp
  then have l2: "length (skip_ws r3) < length s"
    using parse_value_shorter [OF e(4)] skip_ws_Cons [OF e(5)] skip_ws_length [of r3] by simp
  from eq e that [OF lex_string_valid [OF e(2)] l1 e(4)] l2 show ?thesis by (auto split: if_splits)
qed

lemma parse_wf:
  "(\<forall>d v r. parse_value d s = Some (v, r) \<longrightarrow> wf_json d v) \<and>
   (\<forall>d vs r. parse_elements d s = Some (vs, r) \<longrightarrow> (\<forall>v\<in>set vs. wf_json d v)) \<and>
   (\<forall>d ms r. parse_members d s = Some (ms, r) \<longrightarrow> (\<forall>m\<in>set ms. valid_utf8 (fst m) \<and> wf_json d (snd m)))"
proof (induction "length s" arbitrary: s rule: less_induct)
  case less
  have val: "wf_json d v" if "parse_value d s = Some (v, r)" for d v r
  proof -
    note eq = that [unfolded parse_value.simps [of d s]]
    obtain c cs where s: "s = c # cs" using eq by (cases s) auto
    have IH: "parse_elements (Suc d) t = Some (vs, r) \<Longrightarrow> \<forall>v\<in>set vs. wf_json (Suc d) v"
      "parse_members (Suc d) t = Some (ms, r) \<Longrightarrow> \<forall>m\<in>set ms. valid_utf8 (fst m) \<and> wf_json (Suc d) (snd m)"
      if "skip_ws cs = t" for t vs ms
    proof -
      have "length t < length s" using that s skip_ws_length [of cs] by auto
      from less.hyps [OF this]
      show "parse_elements (Suc d) t = Some (vs, r) \<Longrightarrow> \<forall>v\<in>set vs. wf_json (Suc d) v"
        "parse_members (Suc d) t = Some (ms, r) \<Longrightarrow> \<forall>m\<in>set ms. valid_utf8 (fst m) \<and> wf_json (Suc d) (snd m)"
        by blast+
    qed
    consider "c = CHR ''{''" | "c = CHR ''[''" | "c = CHR 0x22" | "c \<notin> {CHR ''{'', CHR ''['', CHR 0x22}" by blast
    then show ?thesis
    proof cases
      case 1
      with eq s IH(2) show ?thesis by (auto split: if_splits list.splits)
    next
      case 2
      with eq s IH(1) show ?thesis by (auto split: if_splits list.splits)
    next
      case 3
      with eq s lex_string_valid show ?thesis by auto
    next
      case 4
      with eq s lex_number_wf show ?thesis by (auto simp: lex_literal_def split: if_splits)
    qed
  qed
  have "\<forall>v\<in>set vs. wf_json d v" if "parse_elements d s = Some (vs, r)" for d vs r
    using that by (rule parse_elements_Some) (use val less in auto)
  moreover have "\<forall>m\<in>set ms. valid_utf8 (fst m) \<and> wf_json d (snd m)" if "parse_members d s = Some (ms, r)" for d ms r
    using that
  proof (rule parse_members_Some)
    fix k v us t r1
    assume "valid_utf8 k" "length t < length s" "parse_value d t = Some (v, r1)" "ms = (k, v) # us"
      and us: "us = [] \<or> (\<exists>s'. length s' < length s \<and> parse_members d s' = Some (us, r))"
    moreover have "\<forall>m\<in>set us. valid_utf8 (fst m) \<and> wf_json d (snd m)" using us less.hyps by fastforce
    ultimately show ?thesis using less.hyps [of t] by auto
  qed
  ultimately show ?case using val by blast
qed

text \<open>Whatever bytes a file holds, if they are accepted then every string and member name of the value is
  UTF-8, every number follows the grammar, and no part is nested deeper than 10000 levels.\<close>

lemma parse_text_wf: "parse_text s = Some v \<Longrightarrow> wf_json 0 v"
  using parse_wf [of "skip_ws s"] by (auto simp: parse_text_def split: option.splits if_splits)

lemma parse_json_wf: "parse_json data = Some v \<Longrightarrow> wf_json 0 v"
  by (simp add: parse_json_def parse_text_wf)

end
