(* ===== verification/Json_Decode.thy ===== *)
theory Json_Decode
  imports Json
begin

text \<open>
  From JSON values to Go values: \<open>strconv.Atoi\<close> and the part of \<open>json.Unmarshal\<close> that assigns the members
  of an object to the fields of a struct.

  \<^item> \<open>strconv.Atoi\<close>: sign, decimal digits, the range of a 64-bit integer.
  \<^item> A struct is a list of field names with what assigning a value does. Names are matched up to case; a
    member that matches no field is ignored, one whose value does not fit is skipped, and the first
    such error is reported.

  The lemmas are the round trip of \<open>Atoi\<close> with decimal printing, and that a printed integer is a JSON
  number.
\<close>

section \<open>strconv.Atoi\<close>

definition digits_value :: "string \<Rightarrow> nat" where
  "digits_value ds = foldl (\<lambda>n c. n * 10 + (of_char c - 48)) 0 ds"

definition signed_value :: "bool \<Rightarrow> string \<Rightarrow> int64 option" where
  "signed_value neg ds =
     (if ds = [] \<or> \<not> list_all is_digit ds then None
      else let n = digits_value ds in
        if neg then (if n > 2 ^ 63 then None else Some (word_of_int (- int n)))
        else if n \<ge> 2 ^ 63 then None else Some (word_of_nat n))"

definition Atoi :: "string \<Rightarrow> int64 option" where
  "Atoi s =
     (case s of
        [] \<Rightarrow> None
      | c # cs \<Rightarrow>
          if c = CHR ''-'' then signed_value True cs
          else if c = CHR ''+'' then signed_value False cs
          else signed_value False s)"

section \<open>json.Unmarshal into a struct\<close>

text \<open>Folding of member names: ASCII upper case, and the two other characters that fold into ASCII,
  the long s and the Kelvin sign, in UTF-8.\<close>

definition upper_ascii :: "char \<Rightarrow> char" where
  "upper_ascii c =
     (if 97 \<le> (of_char c :: nat) \<and> (of_char c :: nat) \<le> 122 then char_of ((of_char c :: nat) - 32) else c)"

fun fold_name :: "string \<Rightarrow> string" where
  "fold_name (c1 # c2 # c3 # cs) =
     (if c1 = CHR 0xC5 \<and> c2 = CHR 0xBF then CHR ''S'' # fold_name (c3 # cs)
      else if c1 = CHR 0xE2 \<and> c2 = CHR 0x84 \<and> c3 = CHR 0xAA then CHR ''K'' # fold_name cs
      else upper_ascii c1 # fold_name (c2 # c3 # cs))"
| "fold_name [c1, c2] =
     (if c1 = CHR 0xC5 \<and> c2 = CHR 0xBF then ''S'' else [upper_ascii c1, upper_ascii c2])"
| "fold_name [c1] = [upper_ascii c1]"
| "fold_name [] = []"

datatype json_error = SyntaxError | UnmarshalTypeError string

fun set_string :: "(string \<Rightarrow> 'c \<Rightarrow> 'c) \<Rightarrow> string \<Rightarrow> json \<Rightarrow> 'c \<Rightarrow> json_error option \<times> 'c" where
  "set_string upd name (JString v) cfg = (None, upd v cfg)"
| "set_string upd name JNull cfg = (None, cfg)"
| "set_string upd name _ cfg = (Some (UnmarshalTypeError name), cfg)"

fun set_int :: "(int64 \<Rightarrow> 'c \<Rightarrow> 'c) \<Rightarrow> string \<Rightarrow> json \<Rightarrow> 'c \<Rightarrow> json_error option \<times> 'c" where
  "set_int upd name (JNumber v) cfg =
     (case Atoi v of None \<Rightarrow> (Some (UnmarshalTypeError name), cfg) | Some n \<Rightarrow> (None, upd n cfg))"
| "set_int upd name JNull cfg = (None, cfg)"
| "set_int upd name _ cfg = (Some (UnmarshalTypeError name), cfg)"

text \<open>A field of type \<open>int32\<close>: a number outside its range is an error.\<close>

fun set_int32 :: "(int32 \<Rightarrow> 'c \<Rightarrow> 'c) \<Rightarrow> string \<Rightarrow> json \<Rightarrow> 'c \<Rightarrow> json_error option \<times> 'c" where
  "set_int32 upd name (JNumber v) c =
     (case Atoi v of
        None \<Rightarrow> (Some (UnmarshalTypeError name), c)
      | Some n \<Rightarrow> if - (2 ^ 31) \<le> sint n \<and> sint n < 2 ^ 31 then (None, upd (ucast n) c)
                  else (Some (UnmarshalTypeError name), c))"
| "set_int32 upd name JNull c = (None, c)"
| "set_int32 upd name _ c = (Some (UnmarshalTypeError name), c)"

type_synonym 'c struct_fields = "(string \<times> (json \<Rightarrow> 'c \<Rightarrow> json_error option \<times> 'c)) list"

definition set_member :: "'c struct_fields \<Rightarrow> string \<times> json \<Rightarrow> 'c \<Rightarrow> json_error option \<times> 'c" where
  "set_member fields m c =
     (case find (\<lambda>(name, _). fold_name name = fold_name (fst m)) fields of
        None \<Rightarrow> (None, c)
      | Some (_, assign) \<Rightarrow> assign (snd m) c)"

fun set_members :: "'c struct_fields \<Rightarrow> (string \<times> json) list \<Rightarrow> 'c \<Rightarrow> json_error option \<times> 'c" where
  "set_members fields [] c = (None, c)"
| "set_members fields (m # ms) c =
     (let (e, c1) = set_member fields m c; (e', c2) = set_members fields ms c1 in
      (if e = None then e' else e, c2))"

fun decode_struct :: "'c struct_fields \<Rightarrow> json \<Rightarrow> 'c \<Rightarrow> json_error option \<times> 'c" where
  "decode_struct fields (JObject ms) c = set_members fields ms c"
| "decode_struct fields JNull c = (None, c)"
| "decode_struct fields _ c = (Some (UnmarshalTypeError []), c)"

section \<open>Reading back what was printed\<close>

lemma digit_char_code: "d < 10 \<Longrightarrow> (of_char (digit_char d) :: nat) = 48 + d"
  by (simp add: digit_char_def)

lemma is_digit_digit_char [simp]: "d < 10 \<Longrightarrow> is_digit (digit_char d)"
  by (simp add: is_digit_def digit_char_code)

lemma digits_value_snoc: "digits_value (ds @ [c]) = digits_value ds * 10 + (of_char c - 48)"
  by (simp add: digits_value_def)

lemma show_nat_digits: "list_all is_digit (show_nat n) \<and> digits_value (show_nat n) = n"
proof (induction n rule: show_nat.induct)
  case (1 n)
  show ?case
  proof (cases "n < 10")
    case True
    then show ?thesis by (simp add: show_nat.simps [of n] digits_value_def digit_char_code)
  next
    case False
    with 1 have "list_all is_digit (show_nat (n div 10))" "digits_value (show_nat (n div 10)) = n div 10" by auto
    with False show ?thesis
      by (simp add: show_nat.simps [of n] digits_value_snoc digit_char_code)
  qed
qed

lemma Atoi_digits:
  assumes "list_all is_digit ds" "ds \<noteq> []"
  shows "Atoi ds = signed_value False ds"
proof -
  have "\<not> is_digit CHR ''-''" "\<not> is_digit CHR ''+''" by (simp_all add: is_digit_def)
  with assms show ?thesis by (cases ds) (auto simp: Atoi_def)
qed

lemma Atoi_show_int: "- (2 ^ 63) \<le> i \<Longrightarrow> i < 2 ^ 63 \<Longrightarrow> Atoi (show_int i) = Some (word_of_int i)"
proof (cases "i < 0")
  case True
  moreover assume "- (2 ^ 63) \<le> i"
  ultimately show ?thesis
    using show_nat_digits [of "nat (- i)"] by (simp add: show_int_def Atoi_def signed_value_def Let_def)
next
  case False
  moreover assume "i < 2 ^ 63"
  ultimately show ?thesis
    using show_nat_digits [of "nat i"] Atoi_digits [of "show_nat (nat i)"]
    by (simp add: show_int_def signed_value_def Let_def)
qed

lemma Atoi_Nil [simp]: "Atoi [] = None"
  by (simp add: Atoi_def)

lemma set_int_simps:
  "snd (set_int upd name j cfg) =
     (case j of JNumber v \<Rightarrow> (case Atoi v of None \<Rightarrow> cfg | Some n \<Rightarrow> upd n cfg) | _ \<Rightarrow> cfg)"
  by (cases j) (auto split: option.splits)

lemma set_string_simps:
  "snd (set_string upd name j cfg) = (case j of JString v \<Rightarrow> upd v cfg | _ \<Rightarrow> cfg)"
  by (cases j) auto

section \<open>Printed integers are JSON numbers\<close>

lemma digit_char_0: "digit_char 0 = CHR ''0''"
  by code_simp

lemma show_nat_zero: "hd (show_nat n) = CHR ''0'' \<longleftrightarrow> n = 0"
proof (induction n rule: show_nat.induct)
  case (1 n)
  have z: "digit_char d = CHR ''0'' \<longleftrightarrow> d = 0" if "d < 10" for d
  proof
    assume "digit_char d = CHR ''0''"
    then have "(of_char (digit_char d) :: nat) = 48" by simp
    with that show "d = 0" by (simp add: digit_char_code)
  qed (simp add: digit_char_0)
  show ?case
  proof (cases "n < 10")
    case True
    then show ?thesis using z by (simp add: show_nat.simps [of n])
  next
    case False
    with 1 have "hd (show_nat (n div 10)) \<noteq> CHR ''0''" by simp
    with False show ?thesis by (simp add: show_nat.simps [of n])
  qed
qed

lemma num_int_show_nat: "num_int (show_nat n) = Some (show_nat n, [])"
proof (cases "n = 0")
  case True
  then show ?thesis by (simp add: show_nat.simps digit_char_0 num_int_def)
next
  case False
  obtain c cs where c: "show_nat n = c # cs" by (cases "show_nat n") auto
  with False show_nat_zero [of n] have "c \<noteq> CHR ''0''" by simp
  moreover have "digits1 (show_nat n) = Some (show_nat n, [])"
    using show_nat_digits [of n] by (simp add: digits1_def span_def list_all_iff takeWhile_eq_all_conv [THEN iffD2] dropWhile_eq_Nil_conv [THEN iffD2])
  ultimately show ?thesis using c by (simp add: num_int_def)
qed

lemma wf_number_show_int: "wf_number (show_int i)"
proof -
  have "num_sign (show_nat n) = ([], show_nat n)" for n
  proof -
    obtain c cs where c: "show_nat n = c # cs" by (cases "show_nat n") auto
    with show_nat_digits [of n] have "is_digit c" by simp
    then have "c \<noteq> CHR ''-''" by (auto simp: is_digit_def)
    with c show ?thesis by (simp add: num_sign_def)
  qed
  then show ?thesis
    by (simp add: wf_number_def show_int_def lex_number_def num_int_show_nat num_frac_def num_exp_def)
      (simp add: num_sign_def num_int_show_nat num_frac_def num_exp_def)
qed

text \<open>What \<open>%d\<close> prints of a 64-bit integer, \<open>Atoi\<close> reads back.\<close>

lemma Atoi_config: "Atoi (show_int (sint (n :: int64))) = Some n"
  using Atoi_show_int [of "sint n"] sint_range_size [of n] by (simp add: word_size)

interpretation decimal: text_codec "\<lambda>n :: int64. show_int (sint n)" Atoi "\<lambda>_. True"
  by unfold_locales (simp add: Atoi_config)

end
