(* ===== verification/Database.thy ===== *)
theory Database
  imports Prelude "HOL-Library.Sublist"
begin

text \<open>
  The database of the server, \<open>internal/db/db.go\<close>: the two tables \<open>Open\<close> creates, with the
  statements the services run on them, and \<open>HashPassword\<close>.

  PostgreSQL itself is outside the repository. What is modelled of it is what the schema in \<open>Open\<close>
  and the statements of the services rely on: a \<open>UNIQUE\<close> column rejects a second row with the same
  value, a \<open>BIGSERIAL\<close> column takes the next number of its sequence (a number is consumed even when
  the insert then fails; the sequence ends at the largest 64-bit integer), and any statement may fail
  as a whole (\<open>fault\<close>: connection lost, context cancelled, text the database does not accept),
  changing nothing. Not modelled is a connection that is lost after the database has committed an insert
  and before the answer arrives, which the services see as a failure although the row is there. The wordings of a unique violation and of the end of the sequence are the driver's
  and are fields of the state.

  \<open>HashPassword\<close> is SHA-256 in full (FIPS 180-4), printed in hexadecimal.
\<close>

section \<open>SHA-256\<close>

definition sha_k :: "u32 list" where
  "sha_k =
    [0x428a2f98, 0x71374491, 0xb5c0fbcf, 0xe9b5dba5, 0x3956c25b, 0x59f111f1, 0x923f82a4, 0xab1c5ed5,
     0xd807aa98, 0x12835b01, 0x243185be, 0x550c7dc3, 0x72be5d74, 0x80deb1fe, 0x9bdc06a7, 0xc19bf174,
     0xe49b69c1, 0xefbe4786, 0x0fc19dc6, 0x240ca1cc, 0x2de92c6f, 0x4a7484aa, 0x5cb0a9dc, 0x76f988da,
     0x983e5152, 0xa831c66d, 0xb00327c8, 0xbf597fc7, 0xc6e00bf3, 0xd5a79147, 0x06ca6351, 0x14292967,
     0x27b70a85, 0x2e1b2138, 0x4d2c6dfc, 0x53380d13, 0x650a7354, 0x766a0abb, 0x81c2c92e, 0x92722c85,
     0xa2bfe8a1, 0xa81a664b, 0xc24b8b70, 0xc76c51a3, 0xd192e819, 0xd6990624, 0xf40e3585, 0x106aa070,
     0x19a4c116, 0x1e376c08, 0x2748774c, 0x34b0bcb5, 0x391c0cb3, 0x4ed8aa4a, 0x5b9cca4f, 0x682e6ff3,
     0x748f82ee, 0x78a5636f, 0x84c87814, 0x8cc70208, 0x90befffa, 0xa4506ceb, 0xbef9a3f7, 0xc67178f2]"

type_synonym sha_state = "u32 \<times> u32 \<times> u32 \<times> u32 \<times> u32 \<times> u32 \<times> u32 \<times> u32"

definition sha_init :: sha_state where
  "sha_init = (0x6a09e667, 0xbb67ae85, 0x3c6ef372, 0xa54ff53a, 0x510e527f, 0x9b05688c, 0x1f83d9ab, 0x5be0cd19)"

definition rotr32 :: "nat \<Rightarrow> u32 \<Rightarrow> u32" where
  "rotr32 n x = drop_bit n x OR push_bit (32 - n) x"

definition sha_round :: "sha_state \<Rightarrow> u32 \<times> u32 \<Rightarrow> sha_state" where
  "sha_round st kw =
     (case st of (a, b, c, d, e, f, g, h) \<Rightarrow>
        (let t1 = h + (rotr32 6 e XOR rotr32 11 e XOR rotr32 25 e) + ((e AND f) XOR (NOT e AND g)) + fst kw + snd kw;
             t2 = (rotr32 2 a XOR rotr32 13 a XOR rotr32 22 a) + ((a AND b) XOR (a AND c) XOR (b AND c))
         in (t1 + t2, a, b, c, d + t1, e, f, g)))"

fun sha_expand :: "nat \<Rightarrow> u32 list \<Rightarrow> u32 list" where
  "sha_expand 0 w = w"
| "sha_expand (Suc k) w =
     (let t = length w; x = w ! (t - 15); y = w ! (t - 2) in
      sha_expand k (w @ [w ! (t - 16) + (rotr32 7 x XOR rotr32 18 x XOR drop_bit 3 x) + w ! (t - 7) +
        (rotr32 17 y XOR rotr32 19 y XOR drop_bit 10 y)]))"

fun be_words :: "bytes \<Rightarrow> u32 list" where
  "be_words (a # b # c # d # bs) = Uint32 [a, b, c, d] # be_words bs"
| "be_words _ = []"

definition sha_block :: "sha_state \<Rightarrow> bytes \<Rightarrow> sha_state" where
  "sha_block st block =
     (case (st, foldl sha_round st (zip sha_k (sha_expand 48 (be_words block)))) of
        ((a, b, c, d, e, f, g, h), (a', b', c', d', e', f', g', h')) \<Rightarrow>
          (a + a', b + b', c + c', d + d', e + e', f + f', g + g', h + h'))"

function sha_blocks :: "sha_state \<Rightarrow> bytes \<Rightarrow> sha_state" where
  "sha_blocks st bs = (if length bs < 64 then st else sha_blocks (sha_block st (take 64 bs)) (drop 64 bs))"
  by pat_completeness auto
termination
  by (relation "measure (\<lambda>(st, bs). length bs)") auto

declare sha_blocks.simps [simp del]

definition sha_pad :: "bytes \<Rightarrow> bytes" where
  "sha_pad m = m @ [0x80] @ replicate ((119 - length m mod 64) mod 64) 0 @
     (let len = word_of_nat (8 * length m) :: int64 in PutUint32 (ucast (drop_bit 32 len)) @ PutUint32 (ucast len))"

definition Sum256 :: "bytes \<Rightarrow> bytes" where
  "Sum256 m = (case sha_blocks sha_init (sha_pad m) of (a, b, c, d, e, f, g, h) \<Rightarrow>
     concat (map PutUint32 [a, b, c, d, e, f, g, h]))"

section \<open>HashPassword\<close>

definition hex_digit :: "nat \<Rightarrow> char" where
  "hex_digit d = (if d < 10 then char_of (48 + d) else char_of (87 + d))"

definition hex_bytes :: "bytes \<Rightarrow> string" where
  "hex_bytes bs = concat (map (\<lambda>b. [hex_digit (unat b div 16), hex_digit (unat b mod 16)]) bs)"

definition HashPassword :: "string \<Rightarrow> string" where
  "HashPassword password = hex_bytes (Sum256 (string_bytes password))"

lemma length_Sum256 [simp]: "length (Sum256 m) = 32"
  by (simp add: Sum256_def split: prod.splits)

lemma length_hex_bytes: "length (hex_bytes bs) = 2 * length bs"
  by (induction bs) (auto simp: hex_bytes_def)

lemma length_HashPassword [simp]: "length (HashPassword p) = 64"
  by (simp add: HashPassword_def length_hex_bytes)

text \<open>The padded message is a whole number of blocks, so \<open>sha_blocks\<close> consumes all of it.\<close>

lemma sha_pad_blocks: "length (sha_pad m) mod 64 = 0"
proof -
  define y where "y = length m mod 64"
  have "y < 64" by (simp add: y_def)
  then have "(119 - y) mod 64 = (if y \<le> 55 then 55 - y else 119 - y)"
    by (auto simp: le_mod_geq)
  with \<open>y < 64\<close> have "(y + 9 + (119 - y) mod 64) mod 64 = 0" by auto
  then have "(length m + (9 + (119 - length m mod 64) mod 64)) mod 64 = 0"
    by (metis (no_types, lifting) add.assoc mod_add_left_eq y_def)
  then show ?thesis by (simp add: sha_pad_def Let_def add.commute add.left_commute)
qed

section \<open>The tables\<close>

record user_row =
  row_id :: int64
  row_name :: string
  row_hash :: string

record card_row =
  card_user :: int64
  card_name :: string
  card_stars :: int32

record database =
  users :: "user_row list"
  users_seq :: nat
  cards :: "card_row list"
  unique_violation :: string
  sequence_end :: string

datatype db_error = Fault string | UniqueViolation string | SequenceEnd string | ErrNoRows

fun Error_text :: "db_error \<Rightarrow> string" where
  "Error_text (Fault e) = e"
| "Error_text (UniqueViolation e) = e"
| "Error_text (SequenceEnd e) = e"
| "Error_text ErrNoRows = ''sql: no rows in result set''"

text \<open>The tables right after \<open>Open\<close> has created them.\<close>

definition empty_database :: "string \<Rightarrow> string \<Rightarrow> database" where
  "empty_database uv se = \<lparr>users = [], users_seq = 1, cards = [], unique_violation = uv, sequence_end = se\<rparr>"

text \<open>\<open>INSERT INTO users (name, password_hash) VALUES ($1, $2) RETURNING id\<close>\<close>

definition insert_user :: "string option \<Rightarrow> string \<Rightarrow> string \<Rightarrow> database \<Rightarrow> (db_error + int64) \<times> database" where
  "insert_user fault name hash d =
     (case fault of
        Some e \<Rightarrow> (Inl (Fault e), d)
      | None \<Rightarrow>
          if users_seq d \<ge> 2 ^ 63 then (Inl (SequenceEnd (sequence_end d)), d)
          else if name \<in> row_name ` set (users d)
          then (Inl (UniqueViolation (unique_violation d)), d\<lparr>users_seq := users_seq d + 1\<rparr>)
          else (let i = word_of_nat (users_seq d) in
            (Inr i, d\<lparr>users := users d @ [\<lparr>row_id = i, row_name = name, row_hash = hash\<rparr>],
                      users_seq := users_seq d + 1\<rparr>)))"

text \<open>\<open>SELECT id FROM users WHERE name = $1 AND password_hash = $2\<close>, first row.\<close>

definition select_user :: "string option \<Rightarrow> string \<Rightarrow> string \<Rightarrow> database \<Rightarrow> db_error + int64" where
  "select_user fault name hash d =
     (case fault of
        Some e \<Rightarrow> Inl (Fault e)
      | None \<Rightarrow>
          (case find (\<lambda>r. row_name r = name \<and> row_hash r = hash) (users d) of
             None \<Rightarrow> Inl ErrNoRows
           | Some r \<Rightarrow> Inr (row_id r)))"

text \<open>\<open>INSERT INTO cards (user_id, name, stars) VALUES ($1, $2, $3)\<close>\<close>

definition insert_card :: "string option \<Rightarrow> int64 \<Rightarrow> string \<Rightarrow> int32 \<Rightarrow> database \<Rightarrow> db_error option \<times> database" where
  "insert_card fault user name stars d =
     (case fault of
        Some e \<Rightarrow> (Some (Fault e), d)
      | None \<Rightarrow> (None, d\<lparr>cards := cards d @ [\<lparr>card_user = user, card_name = name, card_stars = stars\<rparr>]\<rparr>))"

section \<open>Open\<close>

text \<open>What the server holds before and after \<open>Open\<close>: a table that does not exist is \<open>None\<close>. The driver
  says which of the steps of \<open>Open\<close> fail, with what text: \<open>sql.Open\<close>, \<open>Ping\<close> and the two statements.\<close>

record postgres =
  users_table :: "(user_row list \<times> nat) option"
  cards_table :: "card_row list option"

record sql_driver =
  sql_Open :: "string \<Rightarrow> string option"
  sql_Ping :: "string option"
  sql_Exec :: "nat \<Rightarrow> string option"

definition create_users :: "postgres \<Rightarrow> postgres" where
  "create_users p = (if users_table p = None then p\<lparr>users_table := Some ([], 1)\<rparr> else p)"

definition create_cards :: "postgres \<Rightarrow> postgres" where
  "create_cards p = (if cards_table p = None then p\<lparr>cards_table := Some []\<rparr> else p)"

definition Open :: "sql_driver \<Rightarrow> string \<Rightarrow> postgres \<Rightarrow> string option \<times> postgres" where
  "Open drv databaseURL p =
     (case sql_Open drv databaseURL of
        Some e \<Rightarrow> (Some (''open db: '' @ e), p)
      | None \<Rightarrow>
          (case sql_Ping drv of
             Some e \<Rightarrow> (Some (''ping db: '' @ e), p)
           | None \<Rightarrow>
               (case sql_Exec drv 0 of
                  Some e \<Rightarrow> (Some (''create users table: '' @ e), p)
                | None \<Rightarrow>
                    (case sql_Exec drv 1 of
                       Some e \<Rightarrow> (Some (''create cards table: '' @ e), create_users p)
                     | None \<Rightarrow> (None, create_cards (create_users p))))))"

text \<open>The tables as the services see them, with the texts of the driver.\<close>

definition database_of :: "string \<Rightarrow> string \<Rightarrow> postgres \<Rightarrow> database option" where
  "database_of uv se p =
     (case (users_table p, cards_table p) of
        (Some (rows, sq), Some cs) \<Rightarrow>
          Some \<lparr>users = rows, users_seq = sq, cards = cs, unique_violation = uv, sequence_end = se\<rparr>
      | _ \<Rightarrow> None)"

section \<open>The invariant of the users table\<close>

definition users_inv :: "database \<Rightarrow> bool" where
  "users_inv d \<longleftrightarrow> distinct (map row_name (users d)) \<and> distinct (map row_id (users d)) \<and>
     0 < users_seq d \<and> users_seq d \<le> 2 ^ 63 \<and>
     (\<forall>r\<in>set (users d). 0 < unat (row_id r) \<and> unat (row_id r) < users_seq d)"

lemma users_inv_empty [simp]: "users_inv (empty_database uv se)"
  by (simp add: users_inv_def empty_database_def)

lemma insert_user_inv:
  assumes "users_inv d" "insert_user fault name hash d = (res, d')"
  shows "users_inv d'"
proof (cases "fault = None \<and> users_seq d < 2 ^ 63 \<and> name \<notin> row_name ` set (users d)")
  case True
  then have u: "unat (word_of_nat (users_seq d) :: int64) = users_seq d"
    by (simp add: unat_of_nat)
  from True assms(2) have d': "d' = d\<lparr>users := users d @ [\<lparr>row_id = word_of_nat (users_seq d), row_name = name, row_hash = hash\<rparr>],
      users_seq := users_seq d + 1\<rparr>"
    by (auto simp: insert_user_def Let_def)
  have "word_of_nat (users_seq d) \<notin> row_id ` set (users d)"
    using assms(1) u by (auto simp: users_inv_def)
  with True assms(1) u show ?thesis unfolding d' by (auto simp: users_inv_def)
next
  case False
  with assms show ?thesis
    by (auto simp: insert_user_def users_inv_def less_Suc_eq split: option.splits if_splits)
qed

lemma insert_user_grows: "insert_user fault name hash d = (res, d') \<Longrightarrow> prefix (users d) (users d')"
  by (auto simp: insert_user_def Let_def split: option.splits if_splits)

lemma insert_user_ok:
  assumes "insert_user fault name hash d = (Inr i, d')"
  shows "fault = None" "users d' = users d @ [\<lparr>row_id = i, row_name = name, row_hash = hash\<rparr>]"
    "name \<notin> row_name ` set (users d)"
  using assms by (auto simp: insert_user_def Let_def split: option.splits if_splits)

lemma select_user_iff:
  assumes "distinct (map row_name (users d))"
  shows "select_user None name hash d = Inr i \<longleftrightarrow> \<lparr>row_id = i, row_name = name, row_hash = hash\<rparr> \<in> set (users d)"
proof -
  have eq: "r = s" if "r \<in> set (users d)" "s \<in> set (users d)" "row_name r = row_name s" for r s
    using assms that by (auto simp: distinct_map inj_on_def)
  show ?thesis
  proof (cases "find (\<lambda>r. row_name r = name \<and> row_hash r = hash) (users d)")
    case None
    then have "\<lparr>row_id = i, row_name = name, row_hash = hash\<rparr> \<notin> set (users d)"
      by (force simp: find_None_iff)
    with None show ?thesis by (simp add: select_user_def)
  next
    case (Some r)
    then have r: "r \<in> set (users d)" "row_name r = name" "row_hash r = hash"
      by (auto simp: find_Some_iff)
    with Some eq [of r] show ?thesis by (cases r) (fastforce simp: select_user_def)
  qed
qed

section \<open>The interface of the users table\<close>

text \<open>
  What the user service needs of its store: an account that was inserted is found under its name and
  hash and under no other pair, an insert changes no other account, a name is taken once, and a
  failed insert changes no account.
\<close>

locale user_store =
  fixes insert_op :: "string option \<Rightarrow> string \<Rightarrow> string \<Rightarrow> 'd \<Rightarrow> ('e + int64) \<times> 'd"
    and select_op :: "string option \<Rightarrow> string \<Rightarrow> string \<Rightarrow> 'd \<Rightarrow> 'e + int64"
    and ok :: "'d \<Rightarrow> bool"
  assumes insert_ok: "ok d \<Longrightarrow> insert_op f n h d = (res, d') \<Longrightarrow> ok d'"
    and select_inserted: "ok d \<Longrightarrow> insert_op f n h d = (Inr i, d') \<Longrightarrow>
      select_op None n' h' d' = Inr j \<longleftrightarrow> (if n' = n then h' = h \<and> j = i else select_op None n' h' d = Inr j)"
    and select_failed: "ok d \<Longrightarrow> insert_op f n h d = (Inl e, d') \<Longrightarrow>
      select_op None n' h' d' = Inr j \<longleftrightarrow> select_op None n' h' d = Inr j"
    and name_free: "ok d \<Longrightarrow> insert_op f n h d = (Inr i, d') \<Longrightarrow> select_op None n h' d \<noteq> Inr j"
begin

text \<open>Any number of inserts by anybody: accounts stay.\<close>

fun inserts :: "(string option \<times> string \<times> string) list \<Rightarrow> 'd \<Rightarrow> 'd" where
  "inserts [] d = d"
| "inserts ((f, n, h) # ops) d = inserts ops (snd (insert_op f n h d))"

lemma insert_keeps_account:
  assumes "ok d" "select_op None n h d = Inr i"
  shows "select_op None n h (snd (insert_op f m k d)) = Inr i"
proof (cases "insert_op f m k d")
  case (Pair res d')
  then show ?thesis
    using assms select_inserted [of d f m k _ d' n h i] select_failed [of d f m k _ d' n h i]
      name_free [of d f m k _ d' h i]
    by (cases res) auto
qed

lemma accounts_stay:
  "ok d \<Longrightarrow> select_op None n h d = Inr i \<Longrightarrow> ok (inserts ops d) \<and> select_op None n h (inserts ops d) = Inr i"
proof (induction ops arbitrary: d)
  case (Cons op ops)
  obtain f m k where op: "op = (f, m, k)" by (cases op)
  obtain res d' where ins: "insert_op f m k d = (res, d')" by fastforce
  with Cons.prems insert_ok insert_keeps_account [OF Cons.prems, of f m k] Cons.IH [of d'] show ?case
    by (simp add: op)
qed simp

lemma account_password:
  assumes "ok d" "insert_op f n h d = (Inr i, d')" "h' \<noteq> h"
  shows "select_op None n h' (inserts ops d') \<noteq> Inr j"
proof -
  have "ok d'" and "select_op None n h d' = Inr i" and "\<And>j. select_op None n h' d' \<noteq> Inr j"
    using assms insert_ok select_inserted [OF assms(1,2)] by auto
  then show ?thesis
  proof (induction ops arbitrary: d')
    case (Cons op ops)
    obtain f m k where op: "op = (f, m, k)" by (cases op)
    obtain res d2 where ins: "insert_op f m k d' = (res, d2)" by fastforce
    have "select_op None n h d2 = Inr i"
      using insert_keeps_account [OF Cons.prems(1,2), of f m k] ins by simp
    moreover have "select_op None n h' d2 \<noteq> Inr j" for j
      using Cons.prems ins select_inserted [OF Cons.prems(1), of f m k _ d2 n h' j]
        select_failed [OF Cons.prems(1), of f m k _ d2 n h' j] name_free [OF Cons.prems(1), of f m k _ d2 h i]
      by (cases res) auto
    ultimately show ?case using Cons.IH [of d2] insert_ok [OF Cons.prems(1) ins] ins by (simp add: op)
  qed simp
qed

end

interpretation tbl: user_store insert_user select_user users_inv
proof
  show "users_inv d'" if "users_inv d" "insert_user f n h d = (res, d')" for d f n h res d'
    using that by (rule insert_user_inv)
  show "select_user None n' h' d' = Inr j \<longleftrightarrow> (if n' = n then h' = h \<and> j = i else select_user None n' h' d = Inr j)"
    if "users_inv d" "insert_user f n h d = (Inr i, d')" for d f n h i d' n' h' j
    using insert_user_ok [OF that(2)] that(1) insert_user_inv [OF that]
    by (auto simp: select_user_iff users_inv_def image_iff)
  show "select_user None n' h' d' = Inr j \<longleftrightarrow> select_user None n' h' d = Inr j"
    if "users_inv d" "insert_user f n h d = (Inl e, d')" for d f n h e d' n' h' j
    using that(2) by (auto simp: insert_user_def select_user_def Let_def split: option.splits if_splits)
  show "select_user None n h' d \<noteq> Inr j" if "users_inv d" "insert_user f n h d = (Inr i, d')" for d f n h i d' h' j
    using insert_user_ok [OF that(2)] that(1) by (auto simp: select_user_iff users_inv_def image_iff)
qed

section \<open>Opening\<close>

lemma create_tables:
  "users_table (create_cards p) = users_table p" "cards_table (create_users p) = cards_table p"
  "users_table (create_users p) = Some (case users_table p of None \<Rightarrow> ([], 1) | Some t \<Rightarrow> t)"
  "cards_table (create_cards p) = Some (case cards_table p of None \<Rightarrow> [] | Some t \<Rightarrow> t)"
  by (auto simp: create_users_def create_cards_def split: option.splits)

lemma create_tables_keep:
  "users_table p = Some t \<Longrightarrow> create_users p = p" "cards_table p = Some c \<Longrightarrow> create_cards p = p"
  by (simp_all add: create_users_def create_cards_def)

lemma Open_success: "Open drv url p = (None, q) \<Longrightarrow> q = create_cards (create_users p)"
  by (auto simp: Open_def split: option.splits)

section \<open>Properties\<close>

text \<open>C28. Opening the database is safe on any state of it: whatever fails, a table that existed keeps its
  rows and its sequence; when nothing fails both tables exist, the missing ones empty, and opening again
  changes nothing; and it succeeds exactly when the connection, the ping and both statements do.\<close>

theorem Open_keeps_tables:
  "(users_table p = Some t \<longrightarrow> users_table (snd (Open drv url p)) = Some t) \<and>
   (cards_table p = Some c \<longrightarrow> cards_table (snd (Open drv url p)) = Some c) \<and>
   (fst (Open drv url p) = None \<longleftrightarrow>
      sql_Open drv url = None \<and> sql_Ping drv = None \<and> sql_Exec drv 0 = None \<and> sql_Exec drv 1 = None) \<and>
   (fst (Open drv url p) = None \<longrightarrow>
      database_of uv se (snd (Open drv url p)) =
        Some \<lparr>users = (case users_table p of None \<Rightarrow> [] | Some (rows, _) \<Rightarrow> rows),
              users_seq = (case users_table p of None \<Rightarrow> 1 | Some (_, sq) \<Rightarrow> sq),
              cards = (case cards_table p of None \<Rightarrow> [] | Some rows \<Rightarrow> rows),
              unique_violation = uv, sequence_end = se\<rparr> \<and>
      snd (Open drv' url' (snd (Open drv url p))) = snd (Open drv url p))"
proof (intro conjI)
  show "users_table p = Some t \<longrightarrow> users_table (snd (Open drv url p)) = Some t"
    "cards_table p = Some c \<longrightarrow> cards_table (snd (Open drv url p)) = Some c"
    by (auto simp: Open_def create_tables split: option.splits)
  show "fst (Open drv url p) = None \<longleftrightarrow>
      sql_Open drv url = None \<and> sql_Ping drv = None \<and> sql_Exec drv 0 = None \<and> sql_Exec drv 1 = None"
    by (auto simp: Open_def split: option.splits)
  have again: "snd (Open drv' url' (create_cards (create_users p))) = create_cards (create_users p)"
    using create_tables_keep [of "create_cards (create_users p)"] by (auto simp: Open_def create_tables split: option.splits)
  have eq: "fst (Open drv url p) = None \<Longrightarrow> snd (Open drv url p) = create_cards (create_users p)"
    by (auto simp: Open_def split: option.splits)
  show "fst (Open drv url p) = None \<longrightarrow>
      database_of uv se (snd (Open drv url p)) =
        Some \<lparr>users = (case users_table p of None \<Rightarrow> [] | Some (rows, _) \<Rightarrow> rows),
              users_seq = (case users_table p of None \<Rightarrow> 1 | Some (_, sq) \<Rightarrow> sq),
              cards = (case cards_table p of None \<Rightarrow> [] | Some rows \<Rightarrow> rows),
              unique_violation = uv, sequence_end = se\<rparr> \<and>
      snd (Open drv' url' (snd (Open drv url p))) = snd (Open drv url p)"
    using again eq by (auto simp: database_of_def create_tables split: option.splits)
qed

theorem Open_keeps_tables_witness:
  "Open \<lparr>sql_Open = (\<lambda>_. None), sql_Ping = None, sql_Exec = (\<lambda>i. if i = 1 then Some ''disk full'' else None)\<rparr> ''postgres://''
      \<lparr>users_table = Some ([\<lparr>row_id = 1, row_name = ''a'', row_hash = []\<rparr>], 2), cards_table = None\<rparr> =
    (Some ''create cards table: disk full'',
      \<lparr>users_table = Some ([\<lparr>row_id = 1, row_name = ''a'', row_hash = []\<rparr>], 2), cards_table = None\<rparr>) \<and>
   users_table (snd (Open \<lparr>sql_Open = (\<lambda>_. None), sql_Ping = None, sql_Exec = (\<lambda>i. if i = 1 then Some ''disk full'' else None)\<rparr>
      ''postgres://'' \<lparr>users_table = Some ([\<lparr>row_id = 1, row_name = ''a'', row_hash = []\<rparr>], 2), cards_table = None\<rparr>)) =
     Some ([\<lparr>row_id = 1, row_name = ''a'', row_hash = []\<rparr>], 2)"
  using Open_keeps_tables [of "\<lparr>users_table = Some ([\<lparr>row_id = 1, row_name = ''a'', row_hash = []\<rparr>], 2), cards_table = None\<rparr>"
      "([\<lparr>row_id = 1, row_name = ''a'', row_hash = []\<rparr>], 2)"
      "\<lparr>sql_Open = (\<lambda>_. None), sql_Ping = None, sql_Exec = (\<lambda>i. if i = 1 then Some ''disk full'' else None)\<rparr>" "''postgres://''"]
  by (simp add: Open_def create_users_def)

end
