(* ===== verification/User_Service.thy ===== *)
theory User_Service
  imports Database
begin

text \<open>
  The user service, \<open>app/user_service.go\<close>, with the messages of \<open>proto/app/user_service.proto\<close>:
  \<open>Register\<close>, \<open>Login\<close> and \<open>Logout\<close> over the users table.

  The first argument of an operation is what the database driver reports for its statement (\<open>None\<close>:
  the statement ran). Message texts are UTF-8, written byte by byte where they are not ASCII.

  The lemmas follow accounts through any sequence of calls made by any clients.
\<close>

section \<open>Messages\<close>

record UserRegisterRequest =
  RegName :: string
  RegPassword :: string

record UserResponse =
  UserId :: int64
  Message :: string

record LoginRequest =
  LoginName :: string
  LoginPassword :: string

record LogoutRequest =
  LogoutUserId :: int64

text \<open>The texts of the responses, in Chinese: registration failed, registered, login failed, logged in,
  welcome back, logged out.\<close>

definition register_failed_text :: string where
  "register_failed_text = [CHR 0xE6, CHR 0xB3, CHR 0xA8, CHR 0xE5, CHR 0x86, CHR 0x8C, CHR 0xE5, CHR 0xA4, CHR 0xB1, CHR 0xE8, CHR 0xB4, CHR 0xA5] @ '': ''"

definition registered_text :: string where
  "registered_text = [CHR 0xE6, CHR 0xB3, CHR 0xA8, CHR 0xE5, CHR 0x86, CHR 0x8C, CHR 0xE6, CHR 0x88, CHR 0x90, CHR 0xE5, CHR 0x8A, CHR 0x9F] @ ''! user_id=''"

definition login_failed_text :: string where
  "login_failed_text = [CHR 0xE7, CHR 0x99, CHR 0xBB, CHR 0xE5, CHR 0xBD, CHR 0x95, CHR 0xE5, CHR 0xA4, CHR 0xB1, CHR 0xE8, CHR 0xB4, CHR 0xA5] @ '': ''"

definition welcome_text :: string where
  "welcome_text = [CHR 0xE7, CHR 0x99, CHR 0xBB, CHR 0xE5, CHR 0xBD, CHR 0x95, CHR 0xE6, CHR 0x88, CHR 0x90, CHR 0xE5, CHR 0x8A, CHR 0x9F] @ ''! '' @ [CHR 0xE6, CHR 0xAC, CHR 0xA2, CHR 0xE8, CHR 0xBF, CHR 0x8E, CHR 0xE5, CHR 0x9B, CHR 0x9E, CHR 0xE6, CHR 0x9D, CHR 0xA5] @ '', ''"

definition logged_out_text :: string where
  "logged_out_text = [CHR 0xE5, CHR 0xB7, CHR 0xB2, CHR 0xE7, CHR 0x99, CHR 0xBB, CHR 0xE5, CHR 0x87, CHR 0xBA]"

section \<open>Operations\<close>

definition UserService_Register :: "string option \<Rightarrow> UserRegisterRequest \<Rightarrow> database \<Rightarrow> UserResponse \<times> database" where
  "UserService_Register fault req d =
     (let hash = HashPassword (RegPassword req) in
      case insert_user fault (RegName req) hash d of
        (Inl err, d') \<Rightarrow> (\<lparr>UserId = 0, Message = register_failed_text @ Error_text err\<rparr>, d')
      | (Inr i, d') \<Rightarrow> (\<lparr>UserId = i, Message = registered_text @ show_int (sint i)\<rparr>, d'))"

definition UserService_Login :: "string option \<Rightarrow> LoginRequest \<Rightarrow> database \<Rightarrow> UserResponse" where
  "UserService_Login fault req d =
     (let hash = HashPassword (LoginPassword req) in
      case select_user fault (LoginName req) hash d of
        Inl err \<Rightarrow> \<lparr>UserId = 0, Message = login_failed_text @ Error_text err\<rparr>
      | Inr i \<Rightarrow> \<lparr>UserId = i, Message = welcome_text @ LoginName req\<rparr>)"

definition UserService_Logout :: "LogoutRequest \<Rightarrow> string" where
  "UserService_Logout req = logged_out_text"

datatype user_call =
    CallRegister "string option" UserRegisterRequest
  | CallLogin "string option" LoginRequest
  | CallLogout LogoutRequest

fun run_call :: "user_call \<Rightarrow> database \<Rightarrow> database" where
  "run_call (CallRegister f req) d = snd (UserService_Register f req d)"
| "run_call (CallLogin f req) d = d"
| "run_call (CallLogout req) d = d"

definition user_calls :: "user_call list \<Rightarrow> database \<Rightarrow> database" where
  "user_calls cs d = fold run_call cs d"

section \<open>Accounts through any calls\<close>

definition inserts_of :: "user_call list \<Rightarrow> (string option \<times> string \<times> string) list" where
  "inserts_of cs = concat (map (\<lambda>c. case c of
     CallRegister f req \<Rightarrow> [(f, RegName req, HashPassword (RegPassword req))] | _ \<Rightarrow> []) cs)"

lemma UserService_Register_db:
  "snd (UserService_Register f req d) = snd (insert_user f (RegName req) (HashPassword (RegPassword req)) d)"
  by (simp add: UserService_Register_def Let_def split: prod.splits sum.splits)

lemma user_calls_inserts: "user_calls cs d = tbl.inserts (inserts_of cs) d"
proof (induction cs arbitrary: d)
  case (Cons c cs)
  then show ?case
    by (cases c) (simp_all add: user_calls_def inserts_of_def UserService_Register_db)
qed (simp add: user_calls_def inserts_of_def)

lemma user_calls_inv: "users_inv d \<Longrightarrow> users_inv (user_calls cs d)"
proof (induction cs arbitrary: d)
  case (Cons c cs)
  have "users_inv (run_call c d)"
    using Cons.prems tbl.insert_ok
    by (cases c) (simp_all add: UserService_Register_db, metis prod.collapse)
  with Cons.IH show ?case by (simp add: user_calls_def)
qed (simp add: user_calls_def)

lemma insert_id_nonzero:
  assumes "users_inv d" "insert_user f n h d = (Inr i, d')"
  shows "i \<noteq> 0"
proof -
  have "users_inv d'" using assms tbl.insert_ok by blast
  with insert_user_ok(2) [OF assms(2)] show ?thesis by (auto simp: users_inv_def)
qed

lemma Register_registered:
  assumes "users_inv d" "UserService_Register f req d = (resp, d')" "UserId resp \<noteq> 0"
  shows "insert_user f (RegName req) (HashPassword (RegPassword req)) d = (Inr (UserId resp), d')"
  using assms by (auto simp: UserService_Register_def Let_def split: prod.splits sum.splits)

section \<open>Properties\<close>

text \<open>The password decides: after a successful registration, and whatever calls are made by anybody
  in between, a login under that name answers the registered user id if the password has the same
  hash, and fails otherwise.\<close>

lemma login_after_register:
  assumes "users_inv d" "UserService_Register f req d = (resp, d')" "UserId resp \<noteq> 0"
  shows "UserId (UserService_Login None \<lparr>LoginName = RegName req, LoginPassword = pw\<rparr> (user_calls cs d')) =
    (if HashPassword pw = HashPassword (RegPassword req) then UserId resp else 0)"
proof -
  note ins = Register_registered [OF assms]
  have inv: "users_inv d'" using assms(1) ins by (rule tbl.insert_ok)
  have "select_user None (RegName req) (HashPassword (RegPassword req)) d' = Inr (UserId resp)"
    using tbl.select_inserted [OF assms(1) ins] by simp
  with inv have "select_user None (RegName req) (HashPassword (RegPassword req)) (user_calls cs d') = Inr (UserId resp)"
    unfolding user_calls_inserts by (intro tbl.accounts_stay [THEN conjunct2])
  moreover have "HashPassword pw \<noteq> HashPassword (RegPassword req) \<Longrightarrow>
      select_user None (RegName req) (HashPassword pw) (user_calls cs d') \<noteq> Inr j" for j
    unfolding user_calls_inserts using tbl.account_password [OF assms(1) ins] .
  ultimately show ?thesis by (auto simp: UserService_Login_def split: sum.splits)
qed

lemma login_after_register_witness:
  "UserId (UserService_Login None \<lparr>LoginName = ''alice'', LoginPassword = ''pw''\<rparr>
     (user_calls [CallRegister None \<lparr>RegName = ''bob'', RegPassword = ''pw''\<rparr>,
         CallRegister None \<lparr>RegName = ''alice'', RegPassword = ''other''\<rparr>]
       (snd (UserService_Register None \<lparr>RegName = ''alice'', RegPassword = ''pw''\<rparr> (empty_database ''dup'' ''end''))))) = 1"
proof -
  let ?r = "UserService_Register None \<lparr>RegName = ''alice'', RegPassword = ''pw''\<rparr> (empty_database ''dup'' ''end'')"
  have id: "UserId (fst ?r) = 1"
    by (simp add: UserService_Register_def insert_user_def empty_database_def)
  then have "UserId (fst ?r) \<noteq> 0" by simp
  from login_after_register [OF users_inv_empty prod.collapse [symmetric] this, of "''pw''"] id show ?thesis
    by simp
qed

text \<open>C38. Every branch of \<open>Register\<close>: it fails (answering user id 0) exactly when the statement fails,
  the sequence of ids is used up or the name is taken; then no account changes. Otherwise it adds the
  account with a fresh id, the hash in place of the password.\<close>

theorem Register_user_branches:
  assumes "users_inv d" "UserService_Register f req d = (resp, d')"
  shows "(UserId resp = 0 \<longleftrightarrow> f \<noteq> None \<or> users_seq d \<ge> 2 ^ 63 \<or> RegName req \<in> row_name ` set (users d)) \<and>
    users d' = users d @ (if UserId resp = 0 then [] else
      [\<lparr>row_id = UserId resp, row_name = RegName req, row_hash = HashPassword (RegPassword req)\<rparr>]) \<and>
    UserId resp \<notin> row_id ` set (users d) \<and> cards d' = cards d"
proof (cases "f = None \<and> users_seq d < 2 ^ 63 \<and> RegName req \<notin> row_name ` set (users d)")
  case True
  then obtain i d1 where ins: "insert_user f (RegName req) (HashPassword (RegPassword req)) d = (Inr i, d1)"
    by (auto simp: insert_user_def Let_def)
  moreover have "cards d1 = cards d" using ins by (auto simp: insert_user_def Let_def split: option.splits if_splits)
  moreover have "i \<notin> row_id ` set (users d)"
    using tbl.insert_ok [OF assms(1) ins] insert_user_ok(2) [OF ins] by (auto simp: users_inv_def)
  moreover have "i \<noteq> 0" using assms(1) ins by (rule insert_id_nonzero)
  ultimately show ?thesis
    using True assms(2) insert_user_ok(2) [OF ins] by (auto simp: UserService_Register_def)
next
  case False
  have "0 \<notin> row_id ` set (users d)" using assms(1) by (auto simp: users_inv_def)
  with False assms(2) show ?thesis
    by (auto simp: UserService_Register_def insert_user_def not_less split: option.splits if_splits)
qed

theorem Register_user_branches_witness:
  "let alice = \<lparr>RegName = ''alice'', RegPassword = ''pw''\<rparr>;
       d = snd (UserService_Register None alice (empty_database ''dup'' ''end''));
       (resp, d') = UserService_Register None alice d in
   UserId resp = 0 \<and> users d' = users d"
proof -
  let ?alice = "\<lparr>RegName = ''alice'', RegPassword = ''pw''\<rparr>"
  let ?d = "snd (UserService_Register None ?alice (empty_database ''dup'' ''end''))"
  have inv: "users_inv ?d"
    unfolding UserService_Register_db by (rule tbl.insert_ok [OF users_inv_empty prod.collapse [symmetric]])
  have "''alice'' \<in> row_name ` set (users ?d)"
    by (simp add: UserService_Register_def insert_user_def empty_database_def)
  with Register_user_branches [OF inv prod.collapse [symmetric], of None ?alice] show ?thesis
    by (simp add: split_beta Let_def)
qed

text \<open>C31. From the empty tables and through any calls: names and ids are unique and every id is
  positive, so user id 0 always means failure.\<close>

theorem accounts_unique:
  "distinct (map row_name (users (user_calls cs (empty_database uv se)))) \<and>
   distinct (map row_id (users (user_calls cs (empty_database uv se)))) \<and>
   list_all (\<lambda>r. 0 < sint (row_id r)) (users (user_calls cs (empty_database uv se)))"
proof -
  have inv: "users_inv (user_calls cs (empty_database uv se))" by (simp add: user_calls_inv)
  have "0 < sint (row_id r)" if "r \<in> set (users (user_calls cs (empty_database uv se)))" for r
  proof -
    have "0 < unat (row_id r)" "unat (row_id r) < 2 ^ 63" using inv that by (fastforce simp: users_inv_def)+
    then show ?thesis by (simp only: sint_unat_small of_nat_0_less_iff)
  qed
  with inv show ?thesis by (simp add: users_inv_def list_all_iff)
qed

end
