(* ===== verification/Gacha_Service.thy ===== *)
theory Gacha_Service
  imports Complex_Main Database Json_Decode
begin

text \<open>
  The gacha service, \<open>app/gacha_service.go\<close>, with the messages of \<open>proto/app/gacha_service.proto\<close>: the
  pool built from \<open>operators.json\<close>, \<open>drawOne\<close> and \<open>Draw\<close>.

  \<^item> A \<open>float64\<close> is the rational number it stands for; \<open>round64\<close> rounds to 53 binary digits, ties to
    even, as IEEE 754 does in the range of the normal numbers, where all the numbers here are.
  \<^item> \<open>math/rand\<close> is a parameter (\<open>rand_source\<close>): two operations on a generator state. What the code
    relies on is \<open>rand_ok\<close>, its documented ranges.
  \<^item> The text of \<open>operators.json\<close> is an argument of \<open>init_pool\<close>, which panics (\<open>None\<close>) when it is not JSON
    or an entry does not fit; \<open>Draw\<close> takes the pool. \<open>rand.Intn\<close> panics when it is given 0, which
    happens when a rarity has no operator.
  \<^item> Inserting a card may fail; the code logs that and goes on.
\<close>

section \<open>The pool\<close>

record operator =
  Name :: string
  Rarity :: int32

type_synonym pool = "int32 \<Rightarrow> string list"

text \<open>The loop of \<open>init\<close>; a missing key of the map is the empty list.\<close>

definition add_operator :: "operator \<Rightarrow> pool \<Rightarrow> pool" where
  "add_operator op p = p(Rarity op := p (Rarity op) @ [Name op])"

definition build_pool :: "operator list \<Rightarrow> pool" where
  "build_pool ops = fold add_operator ops (\<lambda>_. [])"

section \<open>init\<close>

definition operator_fields :: "operator struct_fields" where
  "operator_fields =
     [(''name'', set_string (\<lambda>v op. op\<lparr>Name := v\<rparr>) ''name''), (''rarity'', set_int32 (\<lambda>v op. op\<lparr>Rarity := v\<rparr>) ''rarity'')]"

text \<open>\<open>json.Unmarshal\<close> into \<open>[]operator\<close>: each element is decoded into a new zero operator; the first error
  is reported in the end.\<close>

fun decode_elements :: "json list \<Rightarrow> json_error option \<times> operator list" where
  "decode_elements [] = (None, [])"
| "decode_elements (v # vs) =
     (let (e, op) = decode_struct operator_fields v \<lparr>Name = [], Rarity = 0\<rparr>; (e', ops) = decode_elements vs in
      (if e = None then e' else e, op # ops))"

fun decode_operators :: "json \<Rightarrow> json_error option \<times> operator list" where
  "decode_operators (JArray vs) = decode_elements vs"
| "decode_operators JNull = (None, [])"
| "decode_operators _ = (Some (UnmarshalTypeError []), [])"

definition init_pool :: "bytes \<Rightarrow> pool option" where
  "init_pool data =
     (case parse_json data of
        None \<Rightarrow> None
      | Some j \<Rightarrow> (case decode_operators j of (Some err, ops) \<Rightarrow> None | (None, ops) \<Rightarrow> Some (build_pool ops)))"

section \<open>Floating point\<close>

definition pow2 :: "int \<Rightarrow> rat" where
  "pow2 e = (if e \<ge> 0 then 2 ^ nat e else 1 / 2 ^ nat (- e))"

fun log2_floor :: "nat \<Rightarrow> rat \<Rightarrow> int" where
  "log2_floor 0 x = 0"
| "log2_floor (Suc k) x =
     (if x \<ge> 2 then log2_floor k (x / 2) + 1 else if x < 1 then log2_floor k (2 * x) - 1 else 0)"

definition round_even :: "rat \<Rightarrow> int" where
  "round_even x =
     (let f = \<lfloor>x\<rfloor>; d = x - of_int f in
      if d < 1 / 2 then f else if d > 1 / 2 then f + 1 else if even f then f else f + 1)"

definition round64 :: "rat \<Rightarrow> rat" where
  "round64 x =
     (if x \<le> 0 then 0 else
      let e = log2_floor 1023 x - 52 in of_int (round_even (x * pow2 (- e))) * pow2 e)"

section \<open>drawOne\<close>

record 'g rand_source =
  Float64 :: "'g \<Rightarrow> rat \<times> 'g"
  Intn :: "nat \<Rightarrow> 'g \<Rightarrow> nat \<times> 'g"

definition rand_ok :: "'g rand_source \<Rightarrow> bool" where
  "rand_ok rnd \<longleftrightarrow> (\<forall>g. 0 \<le> fst (Float64 rnd g) \<and> fst (Float64 rnd g) < 1) \<and>
     (\<forall>n g. 0 < n \<longrightarrow> fst (Intn rnd n g) < n)"

record Card =
  CardName :: string
  Stars :: int32

definition rarityProb :: "(int32 \<times> rat) list" where
  "rarityProb = [(6, round64 (2 / 100)), (5, round64 (8 / 100)), (4, round64 (50 / 100)), (3, round64 (40 / 100))]"

text \<open>The loop over the tiers; \<open>None\<close> when it ends without a break.\<close>

fun pick_tier :: "rat \<Rightarrow> (int32 \<times> rat) list \<Rightarrow> rat \<Rightarrow> int32 option" where
  "pick_tier r [] cumulative = None"
| "pick_tier r ((stars, prob) # tiers) cumulative =
     (let cumulative' = round64 (cumulative + prob) in
      if r < cumulative' then Some stars else pick_tier r tiers cumulative')"

definition pick_stars :: "rat \<Rightarrow> (int32 \<times> rat) list \<Rightarrow> rat \<Rightarrow> int32" where
  "pick_stars r tiers cumulative = (case pick_tier r tiers cumulative of None \<Rightarrow> 3 | Some stars \<Rightarrow> stars)"

text \<open>\<open>None\<close> is a panic.\<close>

definition drawOne :: "'g rand_source \<Rightarrow> pool \<Rightarrow> 'g \<Rightarrow> Card option \<times> 'g" where
  "drawOne rnd pool g =
     (let (r, g1) = Float64 rnd g; stars = pick_stars r rarityProb 0; names = pool stars in
      if names = [] then (None, g1)
      else let (i, g2) = Intn rnd (length names) g1 in
        if i < length names then (Some \<lparr>CardName = names ! i, Stars = stars\<rparr>, g2) else (None, g2))"

section \<open>Draw\<close>

record DrawRequest =
  DrawUserId :: int64
  Count :: int32

record DrawResponse =
  Cards :: "Card list"
  Instance :: string

record GachaService =
  instance_name :: string

definition NewGachaService :: "string \<Rightarrow> GachaService" where
  "NewGachaService host = \<lparr>instance_name = host\<rparr>"

definition SetInstance :: "string \<Rightarrow> GachaService \<Rightarrow> GachaService" where
  "SetInstance port s = s\<lparr>instance_name := port\<rparr>"

datatype draw_result = Drawn DrawResponse | DrawError string | DrawPanic

definition count_error_text :: string where
  "count_error_text = [CHR 0xE6, CHR 0x8A, CHR 0xBD, CHR 0xE5, CHR 0x8D, CHR 0xA1, CHR 0xE6, CHR 0x95, CHR 0xB0, CHR 0xE9, CHR 0x87, CHR 0x8F, CHR 0xE9, CHR 0x9C, CHR 0x80, CHR 0xE5, CHR 0x9C, CHR 0xA8] @ '' 1-10 '' @ [CHR 0xE4, CHR 0xB9, CHR 0x8B, CHR 0xE9, CHR 0x97, CHR 0xB4, CHR 0xEF, CHR 0xBC, CHR 0x8C, CHR 0xE6, CHR 0x94, CHR 0xB6, CHR 0xE5, CHR 0x88, CHR 0xB0] @ '' ''"

text \<open>The loop over \<open>i\<close>; \<open>faults i\<close> is what the database reports for the \<open>i\<close>-th insert.\<close>

fun draw_loop ::
    "'g rand_source \<Rightarrow> pool \<Rightarrow> int64 \<Rightarrow> (nat \<Rightarrow> string option) \<Rightarrow> nat \<Rightarrow> nat \<Rightarrow> Card list \<Rightarrow> 'g \<Rightarrow> database \<Rightarrow>
     Card list option \<times> 'g \<times> database" where
  "draw_loop rnd pool user faults i 0 cs g d = (Some cs, g, d)"
| "draw_loop rnd pool user faults i (Suc k) cs g d =
     (case drawOne rnd pool g of
        (None, g') \<Rightarrow> (None, g', d)
      | (Some c, g') \<Rightarrow>
          draw_loop rnd pool user faults (Suc i) k (cs @ [c]) g'
            (snd (insert_card (faults i) user (CardName c) (Stars c) d)))"

definition Draw ::
    "GachaService \<Rightarrow> 'g rand_source \<Rightarrow> pool \<Rightarrow> (nat \<Rightarrow> string option) \<Rightarrow> DrawRequest \<Rightarrow> 'g \<Rightarrow> database \<Rightarrow>
     draw_result \<times> 'g \<times> database" where
  "Draw s rnd pool faults req g d =
     (let count = Count req in
      if count <s 1 \<or> 10 <s count
      then (DrawError (count_error_text @ show_int (sint count)), g, d)
      else case draw_loop rnd pool (DrawUserId req) faults 0 (unat count) [] g d of
          (None, g', d') \<Rightarrow> (DrawPanic, g', d')
        | (Some cs, g', d') \<Rightarrow> (Drawn \<lparr>Cards = cs, Instance = instance_name s\<rparr>, g', d'))"

section \<open>The pool and the thresholds\<close>

lemma fold_add_operator: "fold add_operator ops p r = p r @ map Name (filter (\<lambda>op. Rarity op = r) ops)"
  by (induction ops arbitrary: p) (auto simp: add_operator_def)

lemma build_pool_names: "build_pool ops r = map Name (filter (\<lambda>op. Rarity op = r) ops)"
  by (simp add: build_pool_def fold_add_operator)

definition threshold6 :: rat where
  "threshold6 = 5764607523034235 / 288230376151711744"

definition threshold5 :: rat where
  "threshold5 = 3602879701896397 / 36028797018963968"

definition threshold4 :: rat where
  "threshold4 = 5404319552844595 / 9007199254740992"

lemma cumulative_thresholds:
  "round64 (0 + round64 (2 / 100)) = threshold6"
  "round64 (threshold6 + round64 (8 / 100)) = threshold5"
  "round64 (threshold5 + round64 (50 / 100)) = threshold4"
  "round64 (threshold4 + round64 (40 / 100)) = 1"
  by code_simp+

lemma pick_tier_rarityProb:
  "r < 1 \<Longrightarrow> pick_tier r rarityProb 0 =
     Some (if r < threshold6 then 6 else if r < threshold5 then 5 else if r < threshold4 then 4 else 3)"
  unfolding rarityProb_def by (simp only: pick_tier.simps Let_def cumulative_thresholds) simp

section \<open>The loop of Draw\<close>

definition drawable :: "operator list \<Rightarrow> Card \<Rightarrow> bool" where
  "drawable ops c \<longleftrightarrow> \<lparr>Name = CardName c, Rarity = Stars c\<rparr> \<in> set ops \<and> Stars c \<in> {3, 4, 5, 6}"

definition full_pool :: "operator list \<Rightarrow> bool" where
  "full_pool ops \<longleftrightarrow> (\<forall>r\<in>{3, 4, 5, 6}. \<exists>op\<in>set ops. Rarity op = r)"

lemma drawOne_card:
  assumes "rand_ok rnd" "full_pool ops"
  obtains c g' where "drawOne rnd (build_pool ops) g = (Some c, g')" "drawable ops c"
proof -
  obtain r g1 where r: "Float64 rnd g = (r, g1)" by fastforce
  with assms(1) have "r < 1" by (metis fst_conv rand_ok_def)
  define stars where "stars = pick_stars r rarityProb 0"
  have stars: "stars \<in> {3, 4, 5, 6}"
    using pick_tier_rarityProb [OF \<open>r < 1\<close>] by (simp add: stars_def pick_stars_def)
  let ?names = "build_pool ops stars"
  obtain op where "op \<in> set ops" "Rarity op = stars" using stars assms(2) unfolding full_pool_def by blast
  then have ne: "?names \<noteq> []" by (auto simp: build_pool_names filter_empty_conv)
  obtain i g2 where i: "Intn rnd (length ?names) g1 = (i, g2)" by fastforce
  with assms(1) ne have "i < length ?names" by (metis fst_conv length_greater_0_conv rand_ok_def)
  then have "?names ! i \<in> set ?names" by simp
  then have "\<lparr>Name = ?names ! i, Rarity = stars\<rparr> \<in> set ops"
    by (auto simp: build_pool_names) (metis operator.surjective old.unit.exhaust)
  with stars \<open>i < length ?names\<close> ne r i that [of "\<lparr>CardName = ?names ! i, Stars = stars\<rparr>" g2] show ?thesis
    by (simp add: drawOne_def drawable_def stars_def Let_def)
qed

definition stored_cards :: "int64 \<Rightarrow> (nat \<Rightarrow> string option) \<Rightarrow> nat \<Rightarrow> Card list \<Rightarrow> card_row list" where
  "stored_cards user faults i cs =
     map (\<lambda>(k, c). \<lparr>card_user = user, card_name = CardName c, card_stars = Stars c\<rparr>)
       (filter (\<lambda>(k, c). faults k = None) (enumerate i cs))"

lemma insert_card_simps:
  "cards (snd (insert_card f user name stars d)) =
     cards d @ (if f = None then [\<lparr>card_user = user, card_name = name, card_stars = stars\<rparr>] else [])"
  "users (snd (insert_card f user name stars d)) = users d"
  by (auto simp: insert_card_def split: option.splits)

lemma draw_loop_draws:
  assumes "rand_ok rnd" "full_pool ops"
  shows "\<exists>new g' d'. draw_loop rnd (build_pool ops) user faults i k cs g d = (Some (cs @ new), g', d') \<and>
    length new = k \<and> (\<forall>c\<in>set new. drawable ops c) \<and>
    cards d' = cards d @ stored_cards user faults i new \<and> users d' = users d"
proof (induction k arbitrary: i cs g d)
  case 0
  then show ?case by (simp add: stored_cards_def)
next
  case (Suc k)
  obtain c g1 where c: "drawOne rnd (build_pool ops) g = (Some c, g1)" "drawable ops c"
    using drawOne_card [OF assms] .
  let ?d1 = "snd (insert_card (faults i) user (CardName c) (Stars c) d)"
  obtain new g' d' where
    "draw_loop rnd (build_pool ops) user faults (Suc i) k (cs @ [c]) g1 ?d1 = (Some ((cs @ [c]) @ new), g', d')"
    "length new = k" "\<forall>c\<in>set new. drawable ops c"
    "cards d' = cards ?d1 @ stored_cards user faults (Suc i) new" "users d' = users ?d1"
    using Suc by blast
  with c show ?case
    by (intro exI [of _ "c # new"] exI [of _ g'] exI [of _ d'])
      (auto simp: insert_card_simps stored_cards_def)
qed

section \<open>Properties\<close>

text \<open>C32. The stars of a card by the random number: the last cumulative sum, in floating point, is
  exactly 1, so for every random number below 1 the loop over the tiers breaks in one of the four, and
  the initial value 3 of \<open>stars\<close> is never a fallback; the other sums, where one tier ends and the next
  begins, are within \<open>2^-54\<close> of 2%, 10% and 60%.\<close>

theorem drawOne_probabilities:
  assumes "r < 1"
  shows "pick_tier r rarityProb 0 =
      Some (if r < threshold6 then 6 else if r < threshold5 then 5 else if r < threshold4 then 4 else 3) \<and>
    fold (\<lambda>(stars, prob) cumulative. round64 (cumulative + prob)) rarityProb 0 = 1 \<and>
    Some (pick_stars r rarityProb 0) = pick_tier r rarityProb 0 \<and>
    \<bar>threshold6 - 2 / 100\<bar> < 1 / 2 ^ 54 \<and> \<bar>threshold5 - 10 / 100\<bar> < 1 / 2 ^ 54 \<and>
    \<bar>threshold4 - 60 / 100\<bar> < 1 / 2 ^ 54"
proof -
  have "fold (\<lambda>(stars, prob) cumulative. round64 (cumulative + prob)) rarityProb 0 = 1" by code_simp
  with pick_tier_rarityProb [OF assms] show ?thesis
    by (simp add: pick_stars_def threshold6_def threshold5_def threshold4_def)
qed

theorem drawOne_probabilities_witness:
  "pick_tier (1 / 10) rarityProb 0 = Some 5 \<and> pick_tier (99 / 100) rarityProb 0 = Some 3 \<and>
   pick_stars (99 / 100) rarityProb 0 = 3"
  using drawOne_probabilities [of "1 / 10"] drawOne_probabilities [of "99 / 100"]
  by (auto simp: threshold6_def threshold5_def threshold4_def)

text \<open>C20. A draw of 1 to 10 cards always answers exactly that many, each an operator of the table with
  3 to 6 stars, and stores for the user exactly those whose insert succeeded, in order; a failing
  insert does not stop the draw. Assumed: every rarity has an operator, and the ranges documented for
  the random generator.\<close>

theorem Draw_draws:
  assumes "rand_ok rnd" "full_pool ops" "1 \<le> sint (Count req)" "sint (Count req) \<le> 10"
  shows "\<exists>cs g' d'. Draw s rnd (build_pool ops) faults req g d =
      (Drawn \<lparr>Cards = cs, Instance = instance_name s\<rparr>, g', d') \<and>
    int (length cs) = sint (Count req) \<and>
    (\<forall>c\<in>set cs. \<lparr>Name = CardName c, Rarity = Stars c\<rparr> \<in> set ops \<and> Stars c \<in> {3, 4, 5, 6}) \<and>
    cards d' = cards d @ stored_cards (DrawUserId req) faults 0 cs \<and> users d' = users d"
proof -
  have range: "\<not> (Count req <s 1 \<or> 10 <s Count req)"
    using assms(3,4) by (simp add: word_sless_alt)
  have "int (unat (Count req)) = sint (Count req)"
    using assms(3,4) by (simp add: uint_sint take_bit_int_eq_self)
  with range draw_loop_draws [OF assms(1,2), of "DrawUserId req" faults 0 "unat (Count req)" "[]" g d]
  show ?thesis by (auto simp: Draw_def drawable_def)
qed

text \<open>A generator for the examples: numbers in hundredths, and the index 0.\<close>

definition sample_rand :: "nat rand_source" where
  "sample_rand = \<lparr>Float64 = (\<lambda>g. (of_nat (g mod 100) / 100, g + 30)), Intn = (\<lambda>n g. (0, g))\<rparr>"

definition sample_ops :: "operator list" where
  "sample_ops = [\<lparr>Name = ''Texas'', Rarity = 5\<rparr>, \<lparr>Name = ''Amiya'', Rarity = 4\<rparr>,
     \<lparr>Name = ''Exusiai'', Rarity = 6\<rparr>, \<lparr>Name = ''Kroos'', Rarity = 3\<rparr>]"

lemma sample_rand_ok: "rand_ok sample_rand"
  by (simp add: rand_ok_def sample_rand_def)

lemma sample_full_pool: "full_pool sample_ops"
  by (simp add: full_pool_def sample_ops_def)

theorem Draw_draws_witness:
  "\<exists>cs g' d'. Draw (NewGachaService ''host'') sample_rand (build_pool sample_ops) (\<lambda>i. if i = 1 then Some ''down'' else None)
      \<lparr>DrawUserId = 7, Count = 3\<rparr> 0 (empty_database ''dup'' ''end'') = (Drawn \<lparr>Cards = cs, Instance = ''host''\<rparr>, g', d') \<and>
    length cs = 3 \<and> cards d' = stored_cards 7 (\<lambda>i. if i = 1 then Some ''down'' else None) 0 cs"
  using Draw_draws [OF sample_rand_ok sample_full_pool, of "\<lparr>DrawUserId = 7, Count = 3\<rparr>" "NewGachaService ''host''"
      "\<lambda>i. if i = 1 then Some ''down'' else None" 0 "empty_database ''dup'' ''end''"]
  by (auto simp: NewGachaService_def empty_database_def)

text \<open>A count outside 1 to 10, negative counts included, is refused with an error that names it; the
  random generator and the database are not touched.\<close>

lemma Draw_refuses:
  "Draw s rnd pool faults req g d = (DrawError (count_error_text @ show_int (sint (Count req))), g, d) \<longleftrightarrow>
   sint (Count req) < 1 \<or> 10 < sint (Count req)"
  by (auto simp: Draw_def word_sless_alt Let_def split: prod.splits option.splits)

section \<open>The table as a file\<close>

definition operator_json :: "operator \<Rightarrow> json" where
  "operator_json op = JObject [(''name'', JString (Name op)), (''rarity'', JNumber (show_int (sint (Rarity op))))]"

lemma decode_operator_json: "decode_struct operator_fields (operator_json op) z = (None, op)"
proof -
  have names: "fold_name ''name'' = ''NAME''" "fold_name ''rarity'' = ''RARITY''" by code_simp+
  have b: "- (2 ^ 31) \<le> sint (Rarity op)" "sint (Rarity op) < 2 ^ 31"
    using sint_range_size [of "Rarity op"] by (simp_all add: word_size)
  then have a: "Atoi (show_int (sint (Rarity op))) = Some (word_of_int (sint (Rarity op)))"
    by (intro Atoi_show_int) simp_all
  have "sint (word_of_int (sint (Rarity op)) :: int64) = sint (Rarity op)"
    by (simp add: sint_up_scast is_up)
  moreover have "ucast (word_of_int (sint (Rarity op)) :: int64) = Rarity op"
    by (rule bit_word_eqI) (simp add: bit_simps)
  ultimately show ?thesis
    using a b by (simp add: operator_json_def set_member_def operator_fields_def names del: fold_name.simps)
qed

lemma decode_operators_json: "decode_operators (JArray (map operator_json ops)) = (None, ops)"
  by (induction ops) (simp_all add: decode_operator_json)

lemma wf_operators_json: "\<forall>op\<in>set ops. valid_utf8 (Name op) \<Longrightarrow> wf_json 0 (JArray (map operator_json ops))"
  by (auto simp: operator_json_def max_depth_def valid_utf8_ascii wf_number_show_int)

text \<open>From the JSON text of any list of operators with UTF-8 names, \<open>init\<close> builds the pool of that list.\<close>

lemma init_pool_table:
  assumes "\<forall>op\<in>set ops. valid_utf8 (Name op)"
  shows "init_pool (string_bytes (format_json (JArray (map operator_json ops)))) = Some (build_pool ops)"
  unfolding init_pool_def parse_json_format [OF wf_operators_json [OF assms]]
  by (simp add: decode_operators_json del: decode_operators.simps)

text \<open>A table that is no JSON array, or with an entry that does not fit, ends the program before it starts.\<close>

lemma init_pool_panics_iff:
  "init_pool data = None \<longleftrightarrow> (\<forall>j. parse_json data = Some j \<longrightarrow> fst (decode_operators j) \<noteq> None)"
  by (auto simp: init_pool_def split: option.splits prod.splits)

end
