(* ===== verification/Proto_Parser.thy ===== *)
theory Proto_Parser
  imports Prelude
begin

text \<open>
  How the generators read service definitions: \<open>parseProto\<close> of \<open>cmd/genrpc/main.go\<close> and \<open>parse\<close> of
  \<open>cmd/genrpc-java/main.go\<close>, with the regular expressions they use.

  The regular expressions of the generators are sequences of literals, repeated character classes and
  captured repeated classes, with one alternative. \<open>rmatch\<close> is Go's leftmost-first matching for these:
  a greedy repetition tries the longest count first, a lazy one the shortest, and the first way the
  whole expression matches counts. \<open>re_find\<close> takes the leftmost match, \<open>re_find_all\<close> all matches one
  after the other, \<open>re_remove\<close> is \<open>ReplaceAllString\<close> with the empty string. Texts are bytes; the
  negated classes take the bytes of a multi-byte character one by one, which gives the same matches.

  The lemmas give the exact result of the matcher on printed service definitions.
\<close>

section \<open>Regular expressions\<close>

datatype char_class = Space | Word | NotQuote | NotBrace | NotParen | NotNewline | AnyChar

definition is_space :: "char \<Rightarrow> bool" where
  "is_space c \<longleftrightarrow> c \<in> {CHR 0x09, CHR 0x0A, CHR 0x0C, CHR 0x0D, CHR 0x20}"

definition is_word :: "char \<Rightarrow> bool" where
  "is_word c \<longleftrightarrow> (let n = of_char c :: nat in
     48 \<le> n \<and> n \<le> 57 \<or> 65 \<le> n \<and> n \<le> 90 \<or> 97 \<le> n \<and> n \<le> 122 \<or> n = 95)"

fun in_class :: "char_class \<Rightarrow> char \<Rightarrow> bool" where
  "in_class Space c = is_space c"
| "in_class Word c = is_word c"
| "in_class NotQuote c = (c \<noteq> CHR 0x22)"
| "in_class NotBrace c = (c \<noteq> CHR ''}'')"
| "in_class NotParen c = (c \<noteq> CHR '')'' \<and> \<not> is_space c)"
| "in_class NotNewline c = (c \<noteq> CHR 0x0A)"
| "in_class AnyChar c = True"

datatype re_item = Lit string | Star char_class | Plus char_class | Lazy char_class | Cap char_class | LineStart

type_synonym regex = "re_item list list"

primrec first_some :: "('a \<Rightarrow> 'b option) \<Rightarrow> 'a list \<Rightarrow> 'b option" where
  "first_some f [] = None"
| "first_some f (x # xs) = (case f x of None \<Rightarrow> first_some f xs | Some y \<Rightarrow> Some y)"

definition run_length :: "char_class \<Rightarrow> string \<Rightarrow> nat" where
  "run_length c s = length (takeWhile (in_class c) s)"

fun starts_with :: "string \<Rightarrow> string \<Rightarrow> bool" where
  "starts_with [] s = True"
| "starts_with (c # w) (d # s) = (c = d \<and> starts_with w s)"
| "starts_with (c # w) [] = False"

definition last_char :: "char option \<Rightarrow> string \<Rightarrow> char option" where
  "last_char prev w = (if w = [] then prev else Some (last w))"

text \<open>\<open>prev\<close> is the character before the text, \<open>None\<close> at its beginning. The result is the captured
  strings and the rest of the text.\<close>

primrec rmatch :: "re_item list \<Rightarrow> char option \<Rightarrow> string \<Rightarrow> string list \<Rightarrow> (string list \<times> string) option" where
  "rmatch [] prev s caps = Some (caps, s)"
| "rmatch (i # is) prev s caps =
     (case i of
        Lit w \<Rightarrow> if starts_with w s then rmatch is (last_char prev w) (drop (length w) s) caps else None
      | LineStart \<Rightarrow> if prev = None \<or> prev = Some (CHR 0x0A) then rmatch is prev s caps else None
      | Star c \<Rightarrow> first_some (\<lambda>k. rmatch is (last_char prev (take k s)) (drop k s) caps) (rev [0..<Suc (run_length c s)])
      | Plus c \<Rightarrow> first_some (\<lambda>k. rmatch is (last_char prev (take k s)) (drop k s) caps) (rev [1..<Suc (run_length c s)])
      | Lazy c \<Rightarrow> first_some (\<lambda>k. rmatch is (last_char prev (take k s)) (drop k s) caps) [0..<Suc (run_length c s)]
      | Cap c \<Rightarrow> first_some (\<lambda>k. rmatch is (last_char prev (take k s)) (drop k s) (caps @ [take k s]))
                   (rev [1..<Suc (run_length c s)]))"

definition match_here :: "regex \<Rightarrow> char option \<Rightarrow> string \<Rightarrow> (string list \<times> string) option" where
  "match_here re prev s = first_some (\<lambda>alt. rmatch alt prev s []) re"

fun re_find :: "regex \<Rightarrow> char option \<Rightarrow> string \<Rightarrow> (string list \<times> string) option" where
  "re_find re prev s =
     (case match_here re prev s of
        Some m \<Rightarrow> Some m
      | None \<Rightarrow> (case s of [] \<Rightarrow> None | c # cs \<Rightarrow> re_find re (Some c) cs))"

declare re_find.simps [simp del]

text \<open>The expressions used never match the empty text; a match that does not shorten the text ends the
  search.\<close>

definition consumed :: "string \<Rightarrow> string \<Rightarrow> string" where
  "consumed s rest = take (length s - length rest) s"

function re_find_all :: "regex \<Rightarrow> char option \<Rightarrow> string \<Rightarrow> string list list" where
  "re_find_all re prev s =
     (case re_find re prev s of
        None \<Rightarrow> []
      | Some (caps, rest) \<Rightarrow>
          if length rest < length s then caps # re_find_all re (last_char prev (consumed s rest)) rest else [caps])"
  by pat_completeness auto
termination
  by (relation "measure (\<lambda>(re, prev, s). length s)") auto

declare re_find_all.simps [simp del]

function re_remove :: "regex \<Rightarrow> char option \<Rightarrow> string \<Rightarrow> string" where
  "re_remove re prev s =
     (case match_here re prev s of
        Some (caps, rest) \<Rightarrow>
          if length rest < length s then re_remove re (last_char prev (consumed s rest)) rest else s
      | None \<Rightarrow> (case s of [] \<Rightarrow> [] | c # cs \<Rightarrow> c # re_remove re (Some c) cs))"
  by pat_completeness auto
termination
  by (relation "measure (\<lambda>(re, prev, s). length s)") auto

declare re_remove.simps [simp del]

section \<open>The expressions of the generators\<close>

definition rePackage :: regex where
  "rePackage = [[LineStart, Star Space, Lit ''package'', Plus Space, Cap Word, Star Space, Lit '';'']]"

definition reOption :: "string \<Rightarrow> regex" where
  "reOption name = [[Lit ''option'', Plus Space, Lit name, Star Space, Lit ''='', Star Space, Lit [CHR 0x22],
     Cap NotQuote, Lit [CHR 0x22], Star Space, Lit '';'']]"

definition reGoPackage :: regex where
  "reGoPackage = reOption ''go_package''"

definition reJavaPkg :: regex where
  "reJavaPkg = reOption ''java_package''"

definition reService :: regex where
  "reService = [[Lit ''service'', Plus Space, Cap Word, Star Space, Lit ''{'', Cap NotBrace, Lit ''}'']]"

definition reRpc :: regex where
  "reRpc = [[Lit ''rpc'', Plus Space, Cap Word, Star Space, Lit ''('', Star Space, Cap NotParen, Star Space, Lit '')'',
     Star Space, Lit ''returns'', Star Space, Lit ''('', Star Space, Cap NotParen, Star Space, Lit '')'', Star Space, Lit '';'']]"

definition reComment :: regex where
  "reComment = [[Lit ''//'', Star NotNewline], [Lit ''/*'', Lazy AnyChar, Lit ''*/'']]"

section \<open>parseProto\<close>

record methodDef =
  md_name :: string
  md_requestType :: string
  md_responseType :: string

record serviceDef =
  sd_name :: string
  sd_methods :: "methodDef list"

record protoFile =
  pf_pkg :: string
  pf_goPackage :: string
  pf_javaPkg :: string
  pf_services :: "serviceDef list"

definition stripDotPrefix :: "string \<Rightarrow> string" where
  "stripDotPrefix s = (case s of c # cs \<Rightarrow> if c = CHR ''.'' then cs else s | [] \<Rightarrow> [])"

definition first_capture :: "regex \<Rightarrow> string \<Rightarrow> string" where
  "first_capture re content = (case re_find re None content of Some (c # _, _) \<Rightarrow> c | _ \<Rightarrow> [])"

definition method_of :: "string list \<Rightarrow> methodDef" where
  "method_of m = \<lparr>md_name = m ! 0, md_requestType = stripDotPrefix (m ! 1), md_responseType = stripDotPrefix (m ! 2)\<rparr>"

definition service_of :: "string list \<Rightarrow> serviceDef" where
  "service_of m = \<lparr>sd_name = m ! 0, sd_methods = map method_of (re_find_all reRpc None (m ! 1))\<rparr>"

definition parse_services :: "string \<Rightarrow> serviceDef list" where
  "parse_services content = map service_of (re_find_all reService None content)"

definition parseProto :: "string \<Rightarrow> protoFile" where
  "parseProto data =
     (let content = re_remove reComment None data in
      \<lparr>pf_pkg = first_capture rePackage content, pf_goPackage = first_capture reGoPackage content,
       pf_javaPkg = first_capture reJavaPkg content, pf_services = parse_services content\<rparr>)"

section \<open>Matching without backtracking\<close>

text \<open>Where a greedy repetition stops at a character outside its class and the rest of the expression
  matches there, that is the match.\<close>

definition stops :: "char_class \<Rightarrow> string \<Rightarrow> bool" where
  "stops c s \<longleftrightarrow> (case s of [] \<Rightarrow> True | x # xs \<Rightarrow> \<not> in_class c x)"

lemma run_length_stops: "\<forall>x\<in>set w. in_class c x \<Longrightarrow> stops c s \<Longrightarrow> run_length c (w @ s) = length w"
  by (cases s) (auto simp: run_length_def stops_def takeWhile_append takeWhile_eq_all_conv [THEN iffD2])

lemma rev_upt_Suc: "m \<le> n \<Longrightarrow> rev [m..<Suc n] = n # rev [m..<n]"
  by simp

lemma starts_with_append [simp]: "starts_with w (w @ s)"
  by (induction w) auto

lemma rmatch_Lit: "rmatch (Lit w # is) prev (w @ s) caps = rmatch is (last_char prev w) s caps"
  by simp

lemma rmatch_Star:
  assumes "\<forall>x\<in>set w. in_class c x" "stops c s" "rmatch is (last_char prev w) s caps = Some r"
  shows "rmatch (Star c # is) prev (w @ s) caps = Some r"
  using run_length_stops [OF assms(1,2)] assms(3) by (simp add: rev_upt_Suc del: upt_Suc)

lemma rmatch_Plus:
  assumes "w \<noteq> []" "\<forall>x\<in>set w. in_class c x" "stops c s" "rmatch is (last_char prev w) s caps = Some r"
  shows "rmatch (Plus c # is) prev (w @ s) caps = Some r"
  using run_length_stops [OF assms(2,3)] assms(1,4) by (simp add: rev_upt_Suc Suc_leI del: upt_Suc)

lemma rmatch_Cap:
  assumes "w \<noteq> []" "\<forall>x\<in>set w. in_class c x" "stops c s" "rmatch is (last_char prev w) s (caps @ [w]) = Some r"
  shows "rmatch (Cap c # is) prev (w @ s) caps = Some r"
  using run_length_stops [OF assms(2,3)] assms(1,4) by (simp add: rev_upt_Suc Suc_leI del: upt_Suc)

section \<open>Expressions without a line start\<close>

definition free_start :: "regex \<Rightarrow> bool" where
  "free_start re \<longleftrightarrow> (\<forall>alt\<in>set re. LineStart \<notin> set alt)"

lemma rmatch_prev: "LineStart \<notin> set is \<Longrightarrow> rmatch is prev s caps = rmatch is prev' s caps"
proof (induction "is" arbitrary: prev prev' s caps)
  case (Cons i "is")
  then have IH: "rmatch is p t cs = rmatch is p' t cs" for p p' t cs by simp
  have fs: "first_some (\<lambda>k. rmatch is (f k) (g k) (h k)) ks = first_some (\<lambda>k. rmatch is (f' k) (g k) (h k)) ks"
    for f f' g h and ks :: "nat list"
    by (intro arg_cong2 [where f = first_some] ext IH refl)
  show ?case
    using Cons.prems
    by (cases i) (simp_all del: upt_Suc, (rule fs | rule impI IH)+)
qed simp

lemma match_here_prev: "free_start re \<Longrightarrow> match_here re prev s = match_here re prev' s"
proof (induction re)
  case (Cons alt re)
  then have "rmatch alt prev s [] = rmatch alt prev' s []" by (intro rmatch_prev) (simp add: free_start_def)
  with Cons show ?case by (simp add: match_here_def free_start_def split: option.splits)
qed (simp add: match_here_def)

lemma re_find_prev: "free_start re \<Longrightarrow> re_find re prev s = re_find re prev' s"
  using match_here_prev [of re prev s prev']
  by (cases s) (simp_all add: re_find.simps [of re prev] re_find.simps [of re prev'])

lemma re_find_all_prev: "free_start re \<Longrightarrow> re_find_all re prev s = re_find_all re prev' s"
proof (induction "length s" arbitrary: s prev prev' rule: less_induct)
  case less
  have "re_find re prev s = re_find re prev' s" using less.prems by (rule re_find_prev)
  with less show ?case
    by (simp add: re_find_all.simps [of re prev s] re_find_all.simps [of re prev' s] split: option.splits)
qed

text \<open>Expressions that begin with a literal consume some text.\<close>

definition literal_start :: "regex \<Rightarrow> bool" where
  "literal_start re \<longleftrightarrow> (\<forall>alt\<in>set re. \<exists>w is. alt = Lit w # is \<and> w \<noteq> [])"

lemma first_some_SomeD: "first_some f xs = Some y \<Longrightarrow> \<exists>x\<in>set xs. f x = Some y"
  by (induction xs) (auto split: option.splits)

lemma rmatch_rest: "rmatch is prev s caps = Some (caps', rest) \<Longrightarrow> length rest \<le> length s"
proof (induction "is" arbitrary: prev s caps)
  case (Cons i "is")
  have drop: "length rest \<le> length s" if "rmatch is p (drop k s) cs = Some (caps', rest)" for p k cs
    using Cons.IH [OF that] by simp
  show ?case
    using Cons.prems drop Cons.IH [of _ s]
    by (cases i) (auto simp del: upt_Suc split: if_splits dest!: first_some_SomeD)
qed simp

lemma match_here_shorter:
  assumes "literal_start re" "match_here re prev s = Some (caps, rest)"
  shows "length rest < length s"
proof -
  from first_some_SomeD [OF assms(2) [unfolded match_here_def]] assms(1)
  obtain w "is" where w: "w \<noteq> []" "rmatch (Lit w # is) prev s [] = Some (caps, rest)"
    by (auto simp: literal_start_def)
  have "length w \<le> length s" if "starts_with w s"
    using that by (induction w s rule: starts_with.induct) auto
  with w rmatch_rest [of "is" "last_char prev w" "drop (length w) s" "[]" caps rest] show ?thesis
    by (cases w) (auto split: if_splits)
qed

lemma re_find_shorter:
  "literal_start re \<Longrightarrow> re_find re prev s = Some (caps, rest) \<Longrightarrow> length rest < length s"
proof (induction s arbitrary: prev)
  case Nil
  then show ?case
    using match_here_shorter [of re prev "[]"] by (auto simp: re_find.simps [of re prev "[]"] split: option.splits)
next
  case (Cons c s)
  then show ?case
    using match_here_shorter [of re prev "c # s"]
    by (fastforce simp: re_find.simps [of re prev "c # s"] split: option.splits)
qed

lemma re_find_all_skip:
  assumes "free_start re" "literal_start re" "match_here re None (c # s) = None"
  shows "re_find_all re prev (c # s) = re_find_all re prev' s"
proof -
  have "match_here re prev (c # s) = None"
    using assms match_here_prev [of re prev "c # s" None] by simp
  then have f: "re_find re prev (c # s) = re_find re prev' s"
    using re_find_prev [OF assms(1)] by (subst re_find.simps) simp
  show ?thesis
  proof (cases "re_find re prev' s")
    case None
    then show ?thesis by (simp add: f re_find_all.simps [of re prev "c # s"] re_find_all.simps [of re prev' s])
  next
    case (Some m)
    obtain caps rest where m: "m = (caps, rest)" by (cases m)
    with Some re_find_shorter [OF assms(2)] have "length rest < length s" by blast
    with Some m f re_find_all_prev [OF assms(1)] show ?thesis
      by (simp add: re_find_all.simps [of re prev "c # s"] re_find_all.simps [of re prev' s])
  qed
qed

lemma re_find_all_match:
  assumes "free_start re" "literal_start re" "match_here re None s = Some (caps, rest)"
  shows "re_find_all re prev s = caps # re_find_all re prev' rest"
proof -
  have "match_here re prev s = Some (caps, rest)"
    using assms match_here_prev [of re prev s None] by simp
  then have "re_find re prev s = Some (caps, rest)" by (simp add: re_find.simps [of re prev s])
  with assms(1) match_here_shorter [OF assms(2,3)] show ?thesis
    by (simp add: re_find_all.simps [of re prev s]) (rule re_find_all_prev)
qed

section \<open>Printed definitions\<close>

definition format_method :: "methodDef \<Rightarrow> string" where
  "format_method m = ''rpc '' @ md_name m @ ''('' @ md_requestType m @ '') returns ('' @ md_responseType m @ '');''"

definition format_methods :: "methodDef list \<Rightarrow> string" where
  "format_methods ms = concat (map (\<lambda>m. [CHR 0x0A, CHR '' '', CHR '' ''] @ format_method m) ms)"

definition format_service :: "serviceDef \<Rightarrow> string" where
  "format_service svc = ''service '' @ sd_name svc @ '' {'' @ format_methods (sd_methods svc) @ [CHR 0x0A] @ ''}''"

definition format_services :: "serviceDef list \<Rightarrow> string" where
  "format_services svcs = concat (map (\<lambda>svc. CHR 0x0A # format_service svc) svcs)"

text \<open>Identifiers, and type names: identifiers joined by dots, without a leading dot.\<close>

definition wf_name :: "string \<Rightarrow> bool" where
  "wf_name s \<longleftrightarrow> s \<noteq> [] \<and> list_all is_word s"

definition wf_type :: "string \<Rightarrow> bool" where
  "wf_type s \<longleftrightarrow> s \<noteq> [] \<and> list_all (\<lambda>c. is_word c \<or> c = CHR ''.'') s \<and> hd s \<noteq> CHR ''.''"

definition wf_method :: "methodDef \<Rightarrow> bool" where
  "wf_method m \<longleftrightarrow> wf_name (md_name m) \<and> wf_type (md_requestType m) \<and> wf_type (md_responseType m)"

definition wf_service :: "serviceDef \<Rightarrow> bool" where
  "wf_service svc \<longleftrightarrow> wf_name (sd_name svc) \<and> list_all wf_method (sd_methods svc)"

lemma word_separators [simp]:
  "\<not> is_word CHR '' ''" "\<not> is_word CHR ''(''" "\<not> is_word CHR '')''" "\<not> is_word CHR ''}''"
  "\<not> is_word CHR 0x09" "\<not> is_word CHR 0x0A" "\<not> is_word CHR 0x0C" "\<not> is_word CHR 0x0D"
  by (simp_all add: is_word_def)

lemma is_word_not_space: "is_word c \<Longrightarrow> \<not> is_space c"
  by (auto simp: is_space_def)

lemma class_facts [simp]:
  "in_class Space CHR '' ''" "\<not> in_class Word CHR '' ''" "\<not> in_class Word CHR ''(''"
  "\<not> in_class Space CHR ''(''" "\<not> in_class Space CHR '')''" "\<not> in_class Space CHR ''{''"
  "\<not> in_class Space CHR '';''" "\<not> in_class Space CHR ''r''" "\<not> in_class NotParen CHR '')''"
  "\<not> in_class NotBrace CHR ''}''"
  by (simp_all add: is_space_def)

declare in_class.simps [simp del] rmatch.simps(2) [simp del]

lemma stops_Cons [simp]: "stops c (x # xs) \<longleftrightarrow> \<not> in_class c x"
  by (simp add: stops_def)

lemma wf_name_chars:
  assumes "wf_name s"
  shows "s \<noteq> []" "\<forall>x\<in>set s. in_class Word x" "\<forall>x\<in>set s. in_class NotBrace x" "stops Space (s @ t)"
  using assms by (cases s; auto simp: wf_name_def list_all_iff in_class.simps is_word_not_space)+

lemma wf_type_chars:
  assumes "wf_type s"
  shows "s \<noteq> []" "\<forall>x\<in>set s. in_class NotParen x" "\<forall>x\<in>set s. in_class NotBrace x" "stops Space (s @ t)"
    "stripDotPrefix s = s"
proof -
  have c: "in_class NotParen x \<and> in_class NotBrace x \<and> \<not> in_class Space x" if "x \<in> set s" for x
  proof -
    from assms that have "is_word x \<or> x = CHR ''.''" by (auto simp: wf_type_def list_all_iff)
    then show ?thesis by (auto simp: in_class.simps is_word_not_space) (simp_all add: is_space_def)
  qed
  show "s \<noteq> []" "stripDotPrefix s = s"
    using assms by (auto simp: wf_type_def stripDotPrefix_def split: list.splits)
  show "\<forall>x\<in>set s. in_class NotParen x" "\<forall>x\<in>set s. in_class NotBrace x" using c by auto
  show "stops Space (s @ t)" using c \<open>s \<noteq> []\<close> by (cases s) auto
qed

lemma rmatch_lit: "rmatch is (last_char p w) s caps = Some r \<Longrightarrow> rmatch (Lit w # is) p (w @ s) caps = Some r"
  by (simp add: rmatch.simps(2))

lemma rmatch_none: "stops c s \<Longrightarrow> rmatch is p s caps = Some r \<Longrightarrow> rmatch (Star c # is) p s caps = Some r"
  using rmatch_Star [of "[]" c s "is" p caps r] by (simp add: last_char_def)

lemma match_method:
  assumes "wf_name n" "wf_type q" "wf_type r"
  shows "match_here reRpc p (''rpc'' @ '' '' @ n @ ''('' @ q @ '')'' @ '' '' @ ''returns'' @ '' '' @ ''('' @ r @ '')'' @ '';'' @ rest) =
    Some ([n, q, r], rest)"
proof -
  note chars = wf_name_chars [OF assms(1)] wf_type_chars [OF assms(2)] wf_type_chars [OF assms(3)]
  have "rmatch (hd reRpc) p (''rpc'' @ '' '' @ n @ ''('' @ q @ '')'' @ '' '' @ ''returns'' @ '' '' @ ''('' @ r @ '')'' @ '';'' @ rest) [] =
      Some ([n, q, r], rest)"
    unfolding reRpc_def list.sel
    by (rule rmatch_lit, rule rmatch_Plus, simp, simp, rule chars,
      rule rmatch_Cap, rule chars, rule chars, simp, rule rmatch_none, simp, rule rmatch_lit,
      rule rmatch_none, rule chars, rule rmatch_Cap, rule chars, rule chars, simp, rule rmatch_none, simp, rule rmatch_lit,
      rule rmatch_Star, simp, simp, rule rmatch_lit, rule rmatch_Star, simp, simp, rule rmatch_lit,
      rule rmatch_none, rule chars, rule rmatch_Cap, rule chars, rule chars, simp, rule rmatch_none, simp, rule rmatch_lit,
      rule rmatch_none, simp, rule rmatch_lit, simp)
  then show ?thesis by (simp add: match_here_def reRpc_def)
qed

lemma match_service:
  assumes "wf_name n" "body \<noteq> []" "CHR ''}'' \<notin> set body"
  shows "match_here reService p (''service'' @ '' '' @ n @ '' '' @ ''{'' @ body @ ''}'' @ rest) = Some ([n, body], rest)"
proof -
  note chars = wf_name_chars [OF assms(1)]
  have body: "\<forall>x\<in>set body. in_class NotBrace x" using assms(3) by (auto simp: in_class.simps)
  have "rmatch (hd reService) p (''service'' @ '' '' @ n @ '' '' @ ''{'' @ body @ ''}'' @ rest) [] = Some ([n, body], rest)"
    unfolding reService_def list.sel
    by (rule rmatch_lit, rule rmatch_Plus, simp, simp, rule chars, rule rmatch_Cap, rule chars, rule chars, simp,
      rule rmatch_Star, simp, simp, rule rmatch_lit, rule rmatch_Cap, rule assms, rule body, simp, rule rmatch_lit, simp)
  then show ?thesis by (simp add: match_here_def reService_def)
qed

lemma regex_shapes:
  "free_start reRpc" "literal_start reRpc" "free_start reService" "literal_start reService"
  by (simp_all add: free_start_def literal_start_def reRpc_def reService_def)

lemma no_match:
  "c \<noteq> CHR ''r'' \<Longrightarrow> match_here reRpc p (c # s) = None"
  "c \<noteq> CHR ''s'' \<Longrightarrow> match_here reService p (c # s) = None"
  by (simp_all add: match_here_def reRpc_def reService_def rmatch.simps(2))

lemma re_find_all_Nil: "re_find_all reRpc p [] = []" "re_find_all reService p [] = []"
  by (simp_all add: re_find_all.simps re_find.simps match_here_def reRpc_def reService_def rmatch.simps(2))

section \<open>What parsing printed definitions gives\<close>

lemma format_methods_Cons:
  "format_methods (m # ms) @ t = CHR 0x0A # CHR '' '' # CHR '' '' # ''rpc'' @ '' '' @ md_name m @ ''('' @ md_requestType m @
     '')'' @ '' '' @ ''returns'' @ '' '' @ ''('' @ md_responseType m @ '')'' @ '';'' @ format_methods ms @ t"
  by (simp add: format_methods_def format_method_def)

lemma find_methods:
  assumes "list_all wf_method ms"
  shows "map method_of (re_find_all reRpc p (format_methods ms @ [CHR 0x0A])) = ms"
  using assms
proof (induction ms arbitrary: p)
  case Nil
  have "re_find_all reRpc p [CHR 0x0A] = re_find_all reRpc None []"
    by (rule re_find_all_skip) (simp_all add: regex_shapes no_match)
  then show ?case by (simp add: format_methods_def re_find_all_Nil)
next
  case (Cons m ms)
  let ?t = "format_methods ms @ [CHR 0x0A]"
  from Cons.prems have wf: "wf_name (md_name m)" "wf_type (md_requestType m)" "wf_type (md_responseType m)"
    by (simp_all add: wf_method_def)
  let ?text = "''rpc'' @ '' '' @ md_name m @ ''('' @ md_requestType m @ '')'' @ '' '' @ ''returns'' @ '' '' @ ''('' @
    md_responseType m @ '')'' @ '';'' @ ?t"
  have skip: "re_find_all reRpc q (c # s) = re_find_all reRpc None s" if "c \<noteq> CHR ''r''" for q c s
    by (rule re_find_all_skip) (simp_all add: regex_shapes no_match that)
  have "re_find_all reRpc p (format_methods (m # ms) @ [CHR 0x0A]) = re_find_all reRpc None ?text"
    unfolding format_methods_Cons by (subst skip, simp, subst skip, simp, subst skip, simp, rule refl)
  also have "\<dots> = [md_name m, md_requestType m, md_responseType m] # re_find_all reRpc None ?t"
    by (rule re_find_all_match [OF regex_shapes(1,2) match_method [OF wf]])
  finally show ?case
    using Cons wf_type_chars(5) [OF wf(2)] wf_type_chars(5) [OF wf(3)] by (simp add: method_of_def)
qed

lemma format_methods_chars:
  assumes "list_all wf_method ms"
  shows "CHR ''}'' \<notin> set (format_methods ms)"
  using assms
proof (induction ms)
  case (Cons m ms)
  then have wf: "wf_name (md_name m)" "wf_type (md_requestType m)" "wf_type (md_responseType m)"
    by (simp_all add: wf_method_def)
  then have "CHR ''}'' \<notin> set (md_name m) \<union> set (md_requestType m) \<union> set (md_responseType m)"
    using wf_name_chars(3) [OF wf(1)] wf_type_chars(3) [OF wf(2)] wf_type_chars(3) [OF wf(3)] by auto
  with Cons show ?case by (auto simp: format_methods_def format_method_def)
qed (simp add: format_methods_def)

lemma find_services:
  assumes "list_all wf_service svcs"
  shows "map service_of (re_find_all reService p (format_services svcs)) = svcs"
  using assms
proof (induction svcs arbitrary: p)
  case Nil
  then show ?case by (simp add: format_services_def re_find_all_Nil)
next
  case (Cons svc svcs)
  let ?body = "format_methods (sd_methods svc) @ [CHR 0x0A]"
  let ?text = "''service'' @ '' '' @ sd_name svc @ '' '' @ ''{'' @ ?body @ ''}'' @ format_services svcs"
  from Cons.prems have wf: "wf_name (sd_name svc)" "list_all wf_method (sd_methods svc)"
    by (simp_all add: wf_service_def)
  have body: "?body \<noteq> []" "CHR ''}'' \<notin> set ?body" using format_methods_chars [OF wf(2)] by auto
  have "format_services (svc # svcs) = CHR 0x0A # ?text"
    by (simp add: format_services_def format_service_def)
  then have "re_find_all reService p (format_services (svc # svcs)) = re_find_all reService None ?text"
    by (simp only:) (rule re_find_all_skip, simp_all add: regex_shapes no_match)
  also have "\<dots> = [sd_name svc, ?body] # re_find_all reService None (format_services svcs)"
    by (rule re_find_all_match [OF regex_shapes(3,4) match_service [OF wf(1) body]])
  finally show ?case
    using Cons find_methods [OF wf(2), of None] by (simp add: service_of_def)
qed

interpretation services_text: text_codec format_services "\<lambda>s. Some (parse_services s)" "list_all wf_service"
  by unfold_locales (simp add: parse_services_def find_services)

section \<open>Properties\<close>

text \<open>C15. Round trip of the generators' parser: service definitions printed one per line, with any
  well-formed names, are parsed back exactly, every service, every method, with its types, in
  order.\<close>

theorem parse_services_roundtrip:
  assumes "list_all wf_service svcs"
  shows "parse_services (format_services svcs) = svcs"
  using services_text.parse_print [OF assms] by simp

theorem parse_services_roundtrip_witness:
  "parse_services (format_services [\<lparr>sd_name = ''Gacha'', sd_methods =
      [\<lparr>md_name = ''Draw'', md_requestType = ''app.DrawRequest'', md_responseType = ''DrawResponse''\<rparr>]\<rparr>]) =
    [\<lparr>sd_name = ''Gacha'', sd_methods =
      [\<lparr>md_name = ''Draw'', md_requestType = ''app.DrawRequest'', md_responseType = ''DrawResponse''\<rparr>]\<rparr>]"
  by (rule parse_services_roundtrip)
    (simp add: wf_service_def wf_method_def wf_name_def wf_type_def is_word_def)

end
