(* ===== verification/Genrpc.thy ===== *)
theory Genrpc
  imports Server Proto_Parser
begin

text \<open>
  The code generators, \<open>cmd/genrpc/main.go\<close> and \<open>cmd/genrpc-java/main.go\<close>, from the parsed
  service definitions on: name resolution, the data handed to the templates, and what the generated
  Go code does.

  \<^item> \<open>protoFile\<close>, \<open>serviceDef\<close>, \<open>methodDef\<close> are the parsed files, as theory \<open>Proto_Parser\<close> gives them; the
    texts the templates produce are in \<open>Gen_Text\<close>.
  \<^item> \<open>gen_services\<close> and \<open>gen_imports\<close> are the data of the Go template, \<open>gen_java\<close> those of the Java
    template. A Go map that is only built and iterated is a list of its updates.
  \<^item> \<open>rpc_handler\<close> and \<open>RegisterService\<close> are the functions the Go template produces: the handler
    that unmarshals, calls the service and marshals, and the registration of one per method.

  The lemmas say that both generators name a method alike, that distinct methods get distinct routes,
  and that the import aliases used are imported.
\<close>

section \<open>Names\<close>

text \<open>\<open>strings.ToLower\<close> of a string of one byte: a byte that is not ASCII is not valid UTF-8 by itself
  and is replaced by the encoding of U+FFFD.\<close>

definition lower_byte :: "char \<Rightarrow> string" where
  "lower_byte c =
     (let n = of_char c :: nat in
      if 65 \<le> n \<and> n \<le> 90 then [char_of (n + 32)]
      else if n < 128 then [c]
      else [CHR 0xEF, CHR 0xBF, CHR 0xBD])"

fun lowerFirst :: "string \<Rightarrow> string" where
  "lowerFirst [] = []"
| "lowerFirst (c # cs) = lower_byte c @ cs"

text \<open>\<open>strings.LastIndex(s, c)\<close> used to cut a string: the parts before and after the last \<open>c\<close>.\<close>

definition cut_last :: "char \<Rightarrow> string \<Rightarrow> (string \<times> string) option" where
  "cut_last c s =
     (if c \<in> set s
      then Some (rev (tl (dropWhile (\<lambda>x. x \<noteq> c) (rev s))), rev (takeWhile (\<lambda>x. x \<noteq> c) (rev s)))
      else None)"

definition lastPathSegment :: "string \<Rightarrow> string" where
  "lastPathSegment path =
     (let p = rev (dropWhile (\<lambda>x. x = CHR ''/'') (rev path)) in
      case cut_last CHR ''/'' p of Some (_, seg) \<Rightarrow> seg | None \<Rightarrow> p)"

definition toAlias :: "string \<Rightarrow> string" where
  "toAlias path =
     (let base = lastPathSegment path in if base = ''rpc'' then ''rpcproto'' else ''pb_'' @ base)"

definition keyFor :: "string \<Rightarrow> string \<Rightarrow> string" where
  "keyFor alias path = alias @ '' '' @ path"

record goType =
  pkgPath :: string
  pkgName :: string
  typeName :: string

definition resolveType :: "string \<Rightarrow> string \<Rightarrow> (string \<Rightarrow> string) \<Rightarrow> goType" where
  "resolveType name currentPkg pkgMap =
     (let (pkg, base) = (case cut_last CHR ''.'' name of Some (p, b) \<Rightarrow> (p, b) | None \<Rightarrow> (currentPkg, name));
          path = (if pkgMap pkg = [] then ''rpc-server/pb/'' @ pkg else pkgMap pkg)
      in \<lparr>pkgPath = path, pkgName = lastPathSegment path, typeName = base\<rparr>)"

section \<open>The Go generator\<close>

record methodTemplateData =
  RpcName :: string
  RouterKey :: string
  RequestGo :: string
  ResponseGo :: string
  RequestNew :: string

record serviceTemplateData =
  TServiceName :: string
  HandlerName :: string
  TMethods :: "methodTemplateData list"

text \<open>\<open>pkgMap\<close>: a missing key reads as the empty string.\<close>

definition pkg_map :: "protoFile list \<Rightarrow> string \<Rightarrow> string" where
  "pkg_map pfs =
     fold (\<lambda>pf m. if pf_pkg pf \<noteq> [] \<and> pf_goPackage pf \<noteq> [] then m(pf_pkg pf := pf_goPackage pf) else m)
       pfs (\<lambda>_. [])"

definition gen_method :: "(string \<Rightarrow> string) \<Rightarrow> string \<Rightarrow> methodDef \<Rightarrow> methodTemplateData" where
  "gen_method pkgMap pkg m =
     (let reqType = resolveType (md_requestType m) pkg pkgMap;
          respType = resolveType (md_responseType m) pkg pkgMap;
          alias = toAlias (pkgPath reqType); alias2 = toAlias (pkgPath respType)
      in \<lparr>RpcName = md_name m, RouterKey = lowerFirst (md_name m),
          RequestGo = alias @ ''.'' @ typeName reqType, ResponseGo = alias2 @ ''.'' @ typeName respType,
          RequestNew = ''&'' @ alias @ ''.'' @ typeName reqType @ ''{}''\<rparr>)"

definition method_imports :: "(string \<Rightarrow> string) \<Rightarrow> string \<Rightarrow> methodDef \<Rightarrow> string list" where
  "method_imports pkgMap pkg m =
     (let req = pkgPath (resolveType (md_requestType m) pkg pkgMap);
          resp = pkgPath (resolveType (md_responseType m) pkg pkgMap)
      in [keyFor (toAlias req) req, keyFor (toAlias resp) resp])"

definition gen_service :: "(string \<Rightarrow> string) \<Rightarrow> string \<Rightarrow> serviceDef \<Rightarrow> serviceTemplateData" where
  "gen_service pkgMap pkg svc =
     \<lparr>TServiceName = sd_name svc, HandlerName = sd_name svc @ ''Handler'',
      TMethods = map (gen_method pkgMap pkg) (sd_methods svc)\<rparr>"

text \<open>Files without services are dropped first.\<close>

definition gen_files :: "protoFile list \<Rightarrow> protoFile list" where
  "gen_files pfs = filter (\<lambda>pf. pf_services pf \<noteq> []) pfs"

definition gen_services :: "protoFile list \<Rightarrow> serviceTemplateData list" where
  "gen_services pfs =
     concat (map (\<lambda>pf. map (gen_service (pkg_map (gen_files pfs)) (pf_pkg pf)) (pf_services pf)) (gen_files pfs))"

definition import_keys :: "protoFile list \<Rightarrow> string set" where
  "import_keys pfs =
     set (concat (map (\<lambda>pf. concat (map (\<lambda>svc. concat (map (method_imports (pkg_map (gen_files pfs)) (pf_pkg pf))
       (sd_methods svc))) (pf_services pf))) (gen_files pfs)))"

text \<open>\<open>strings.SplitN(key, " ", 2)\<close>: cut at the first space.\<close>

definition split_key :: "string \<Rightarrow> string \<times> string" where
  "split_key key = (takeWhile (\<lambda>c. c \<noteq> CHR '' '') key, tl (dropWhile (\<lambda>c. c \<noteq> CHR '' '') key))"

definition gen_imports :: "protoFile list \<Rightarrow> (string \<times> string) set" where
  "gen_imports pfs = split_key ` import_keys pfs"

section \<open>The Java generator\<close>

record javaMethod =
  JRpcName :: string
  JavaName :: string
  JRequest :: string
  JResponse :: string

record javaFileData =
  JPackage :: string
  JService :: string
  JMethods :: "javaMethod list"
  JProtoPkg :: string

definition java_typeName :: "string \<Rightarrow> string" where
  "java_typeName s = (case cut_last CHR ''.'' s of Some (_, b) \<Rightarrow> b | None \<Rightarrow> s)"

text \<open>The Java generator has a \<open>lowerFirst\<close> of its own.\<close>

fun java_lowerFirst :: "string \<Rightarrow> string" where
  "java_lowerFirst [] = []"
| "java_lowerFirst (c # cs) = lower_byte c @ cs"

definition gen_java_method :: "methodDef \<Rightarrow> javaMethod" where
  "gen_java_method m =
     \<lparr>JRpcName = md_name m, JavaName = java_lowerFirst (md_name m), JRequest = java_typeName (md_requestType m),
      JResponse = java_typeName (md_responseType m)\<rparr>"

definition gen_java :: "protoFile list \<Rightarrow> javaFileData list" where
  "gen_java pfs =
     concat (map (\<lambda>pf. map (\<lambda>svc. \<lparr>JPackage = ''tech.bobliu.rpc.app'', JService = sd_name svc,
       JMethods = map gen_java_method (sd_methods svc), JProtoPkg = pf_javaPkg pf\<rparr>) (pf_services pf)) pfs)"

section \<open>What the generated Go code does\<close>

text \<open>A service method: an error, or a response; \<open>None\<close> when it panics.\<close>

type_synonym ('req, 'resp, 'w) rpc_method = "'req \<Rightarrow> 'w \<Rightarrow> (string + 'resp) option \<times> 'w"

definition rpc_handler ::
    "(bytes \<Rightarrow> string + 'req) \<Rightarrow> ('req, 'resp, 'w) rpc_method \<Rightarrow> ('resp \<Rightarrow> string + bytes) \<Rightarrow> 'w HandlerFunc" where
  "rpc_handler unmarshal_req method marshal_resp payload w =
     (case unmarshal_req payload of
        Inl err \<Rightarrow> (Fail err, w)
      | Inr req \<Rightarrow>
          (case method req w of
             (None, w') \<Rightarrow> (Panic [], w')
           | (Some (Inl err), w') \<Rightarrow> (Fail err, w')
           | (Some (Inr resp), w') \<Rightarrow>
               (case marshal_resp resp of Inl err \<Rightarrow> (Fail err, w') | Inr b \<Rightarrow> (Reply b, w'))))"

text \<open>\<open>Register<Service>(r, svc)\<close>; \<open>svc\<close> gives the generated handler of each method by its name.\<close>

definition RegisterService ::
    "serviceTemplateData \<Rightarrow> (string \<Rightarrow> 'w HandlerFunc) \<Rightarrow> 'w HandlerFunc Router \<Rightarrow> 'w HandlerFunc Router" where
  "RegisterService t svc r =
     register_all (map (\<lambda>m. (TServiceName t, RouterKey m, svc (RpcName m))) (TMethods t)) r"

text \<open>All the generated registrations, one service after the other.\<close>

definition register_generated ::
    "protoFile list \<Rightarrow> (string \<Rightarrow> string \<Rightarrow> 'w HandlerFunc) \<Rightarrow> 'w HandlerFunc Router \<Rightarrow> 'w HandlerFunc Router" where
  "register_generated pfs svcs r = fold (\<lambda>t. RegisterService t (svcs (TServiceName t))) (gen_services pfs) r"

section \<open>Routes\<close>

text \<open>The routes of the definitions: service name, method name.\<close>

definition proto_methods :: "protoFile list \<Rightarrow> (string \<times> string) list" where
  "proto_methods pfs =
     [(sd_name svc, md_name m). pf \<leftarrow> pfs, svc \<leftarrow> pf_services pf, m \<leftarrow> sd_methods svc]"

definition go_routes :: "protoFile list \<Rightarrow> (string \<times> string) list" where
  "go_routes pfs = [(TServiceName t, RouterKey m). t \<leftarrow> gen_services pfs, m \<leftarrow> TMethods t]"

definition java_routes :: "protoFile list \<Rightarrow> (string \<times> string) list" where
  "java_routes pfs = [(JService f, JavaName m). f \<leftarrow> gen_java pfs, m \<leftarrow> JMethods f]"

lemma concat_concat_map: "concat (concat xss) = concat (map concat xss)"
  by (induction xss) auto

lemma concat_map_gen_files:
  "concat (map (\<lambda>pf. concat (map (f pf) (pf_services pf))) (gen_files pfs)) =
   concat (map (\<lambda>pf. concat (map (f pf) (pf_services pf))) pfs)"
  by (induction pfs) (auto simp: gen_files_def)

lemma go_routes_proto: "go_routes pfs = map (\<lambda>(s, m). (s, lowerFirst m)) (proto_methods pfs)"
proof -
  have "go_routes pfs = concat (map (\<lambda>pf. concat (map (\<lambda>svc.
      map (\<lambda>m. (sd_name svc, lowerFirst (md_name m))) (sd_methods svc)) (pf_services pf))) (gen_files pfs))"
    by (simp add: go_routes_def gen_services_def gen_service_def gen_method_def map_concat o_def Let_def
        concat_concat_map)
  then show ?thesis
    unfolding concat_map_gen_files by (simp add: proto_methods_def map_concat o_def)
qed

lemma java_lowerFirst_eq: "java_lowerFirst s = lowerFirst s"
  by (cases s) simp_all

lemma java_routes_proto: "java_routes pfs = map (\<lambda>(s, m). (s, lowerFirst m)) (proto_methods pfs)"
  by (simp add: java_routes_def gen_java_def gen_java_method_def java_lowerFirst_eq proto_methods_def map_concat o_def
      concat_concat_map)

lemma register_all_append: "register_all (xs @ ys) r = register_all ys (register_all xs r)"
  by (induction xs r rule: register_all.induct) auto

lemma fold_RegisterService:
  "fold (\<lambda>t. RegisterService t (svcs (TServiceName t))) ts r =
   register_all [(TServiceName t, RouterKey m, svcs (TServiceName t) (RpcName m)). t \<leftarrow> ts, m \<leftarrow> TMethods t] r"
  by (induction ts arbitrary: r) (simp_all add: RegisterService_def register_all_append)

definition generated_entries :: "protoFile list \<Rightarrow> (string \<Rightarrow> string \<Rightarrow> 'h) \<Rightarrow> (string \<times> string \<times> 'h) list" where
  "generated_entries pfs svcs = map (\<lambda>(s, m). (s, lowerFirst m, svcs s m)) (proto_methods pfs)"

lemma register_generated_entries:
  "register_generated pfs svcs r = register_all (generated_entries pfs svcs) r"
proof -
  have "[(TServiceName t, RouterKey m, svcs (TServiceName t) (RpcName m)). t \<leftarrow> gen_services pfs, m \<leftarrow> TMethods t] =
      concat (map (\<lambda>pf. concat (map (\<lambda>svc.
        map (\<lambda>m. (sd_name svc, lowerFirst (md_name m), svcs (sd_name svc) (md_name m))) (sd_methods svc))
          (pf_services pf))) (gen_files pfs))"
    by (simp add: gen_services_def gen_service_def gen_method_def map_concat o_def Let_def concat_concat_map)
  also have "\<dots> = generated_entries pfs svcs"
    unfolding concat_map_gen_files by (simp add: generated_entries_def proto_methods_def map_concat o_def)
  finally show ?thesis by (simp add: register_generated_def fold_RegisterService)
qed

lemma lowerFirst_dot_free:
  assumes "dot_free m"
  shows "dot_free (lowerFirst m)"
proof (cases m)
  case (Cons c cs)
  have "CHR ''.'' \<notin> set (lower_byte c)" if "c \<noteq> CHR ''.''"
  proof -
    have ne: "char_of (n + 32) \<noteq> CHR ''.''" if "65 \<le> n" "n \<le> 90" for n :: nat
    proof
      assume "char_of (n + 32) = CHR ''.''"
      then have "of_char (char_of (n + 32) :: char) = (46 :: nat)" by simp
      with that show False by simp
    qed
    with that ne [of "of_char c"] ne [of "of_char c", symmetric] show ?thesis
      by (auto simp: lower_byte_def Let_def)
  qed
  with Cons assms show ?thesis by (auto simp: dot_free_def)
qed (simp add: dot_free_def)

section \<open>Imports\<close>

lemma split_key_keyFor: "CHR '' '' \<notin> set alias \<Longrightarrow> split_key (keyFor alias path) = (alias, path)"
proof -
  assume "CHR '' '' \<notin> set alias"
  then have "\<forall>c\<in>set alias. c \<noteq> CHR '' ''" by auto
  then show ?thesis by (simp add: split_key_def keyFor_def takeWhile_append2 dropWhile_append2)
qed

section \<open>The service definitions of the repository\<close>

text \<open>What parsing \<open>proto/app/gacha_service.proto\<close> and \<open>proto/app/user_service.proto\<close> gives.\<close>

definition gacha_proto :: protoFile where
  "gacha_proto = \<lparr>pf_pkg = ''app'', pf_goPackage = ''rpc-server/pb/app'', pf_javaPkg = ''tech.bobliu.rpc.proto.app'',
     pf_services = [\<lparr>sd_name = ''GachaService'', sd_methods =
       [\<lparr>md_name = ''Draw'', md_requestType = ''DrawRequest'', md_responseType = ''DrawResponse''\<rparr>]\<rparr>]\<rparr>"

definition user_proto :: protoFile where
  "user_proto = \<lparr>pf_pkg = ''app'', pf_goPackage = ''rpc-server/pb/app'', pf_javaPkg = ''tech.bobliu.rpc.proto.app'',
     pf_services = [\<lparr>sd_name = ''UserService'', sd_methods =
       [\<lparr>md_name = ''Register'', md_requestType = ''RegisterRequest'', md_responseType = ''RegisterResponse''\<rparr>,
        \<lparr>md_name = ''Login'', md_requestType = ''LoginRequest'', md_responseType = ''LoginResponse''\<rparr>,
        \<lparr>md_name = ''Logout'', md_requestType = ''LogoutRequest'', md_responseType = ''LogoutResponse''\<rparr>]\<rparr>]\<rparr>"

lemma app_routes:
  "go_routes [gacha_proto, user_proto] =
     [(''GachaService'', ''draw''), (''UserService'', ''register''), (''UserService'', ''login''), (''UserService'', ''logout'')]"
  by code_simp

section \<open>Properties\<close>

text \<open>C25. The two generators agree: from the same definitions, the Go server registers exactly the
  routes, service and method name, that the generated Java interfaces call, in the same order.\<close>

theorem generators_agree: "go_routes pfs = java_routes pfs"
  by (simp add: go_routes_proto java_routes_proto)

text \<open>C26. After the generated registrations every method of every service is reached under its route
  and runs its own handler, provided no two methods share a route (two methods of a service whose
  names differ in the case of the first letter do) and the names have no dots.\<close>

theorem generated_routes:
  assumes "\<forall>(s, m)\<in>set (proto_methods pfs). dot_free s \<and> dot_free m" "distinct (go_routes pfs)"
    and "(s, m) \<in> set (proto_methods pfs)"
  shows "Route (register_generated pfs svcs New) s (lowerFirst m) = Some (svcs s m)"
proof -
  have "\<forall>(s, m, h)\<in>set (generated_entries pfs svcs). dot_free s \<and> dot_free m"
    using assms(1) lowerFirst_dot_free by (auto simp: generated_entries_def)
  moreover have "distinct (map (\<lambda>(s, m, h). (s, m)) (generated_entries pfs svcs))"
    using assms(2) by (simp add: generated_entries_def go_routes_proto o_def split_def)
  moreover have "(s, lowerFirst m, svcs s m) \<in> set (generated_entries pfs svcs)"
    using assms(3) by (force simp: generated_entries_def)
  ultimately show ?thesis
    unfolding register_generated_entries register_all_add_all by (rule rt.find_distinct)
qed

theorem generated_routes_witness:
  "Route (register_generated [gacha_proto, user_proto] (\<lambda>s m p (w :: nat). (Fail (s @ m), w)) New) ''UserService'' ''login'' =
    Some (\<lambda>p w. (Fail ''UserServiceLogin'', w))"
proof -
  have pm: "proto_methods [gacha_proto, user_proto] =
      [(''GachaService'', ''Draw''), (''UserService'', ''Register''), (''UserService'', ''Login''), (''UserService'', ''Logout'')]"
    "lowerFirst ''Login'' = ''login''"
    by code_simp+
  have "distinct (go_routes [gacha_proto, user_proto])" by (simp add: app_routes)
  from generated_routes [OF _ this, of "''UserService''" "''Login''" "\<lambda>s m p (w :: nat). (Fail (s @ m), w)"]
  show ?thesis by (simp add: pm dot_free_def del: lowerFirst.simps)
qed

text \<open>The generated code imports every package it names: the alias in a method's request and response
  type is imported with the path the type was resolved to, if the aliases contain no space.\<close>

lemma generated_imports_cover:
  assumes "pf \<in> set pfs" "svc \<in> set (pf_services pf)" "m \<in> set (sd_methods svc)"
    and "ty = md_requestType m \<or> ty = md_responseType m"
    and "path = pkgPath (resolveType ty (pf_pkg pf) (pkg_map (gen_files pfs)))" "CHR '' '' \<notin> set (toAlias path)"
  shows "(toAlias path, path) \<in> gen_imports pfs"
proof -
  have pf: "pf \<in> set (gen_files pfs)" using assms(1,2) by (auto simp: gen_files_def)
  have "keyFor (toAlias path) path \<in> set (method_imports (pkg_map (gen_files pfs)) (pf_pkg pf) m)"
    using assms(4,5) by (auto simp: method_imports_def Let_def)
  with pf assms(2,3) have "keyFor (toAlias path) path \<in> import_keys pfs"
    unfolding import_keys_def by (fastforce simp: set_concat)
  then show ?thesis
    unfolding gen_imports_def using split_key_keyFor [OF assms(6)] by (metis image_eqI)
qed

lemma generated_imports_cover_witness:
  "(''pb_app'', ''rpc-server/pb/app'') \<in> gen_imports [gacha_proto, user_proto]"
proof -
  let ?m = "\<lparr>md_name = ''Draw'', md_requestType = ''DrawRequest'', md_responseType = ''DrawResponse''\<rparr>"
  have p: "pkgPath (resolveType ''DrawRequest'' (pf_pkg gacha_proto) (pkg_map (gen_files [gacha_proto, user_proto]))) =
      ''rpc-server/pb/app''" "toAlias ''rpc-server/pb/app'' = ''pb_app''"
    by code_simp+
  have "hd (pf_services gacha_proto) \<in> set (pf_services gacha_proto)"
    "?m \<in> set (sd_methods (hd (pf_services gacha_proto)))"
    by (simp_all add: gacha_proto_def)
  from generated_imports_cover [OF _ this, of "[gacha_proto, user_proto]" "''DrawRequest''" "''rpc-server/pb/app''"] p
  show ?thesis by simp
qed

end
