(* ===== verification/Paths.thy ===== *)
theory Paths
  imports Prelude
begin

text \<open>
  File paths as \<open>path/filepath\<close> treats them on Unix: \<open>Clean\<close>, \<open>Join\<close> and \<open>Dir\<close>, which work on the text only.
  The generators find their input and output directories relative to their own source file
  (\<open>cmd/genrpc\<close>, \<open>cmd/genrpc-java\<close>) or to the working directory (\<open>cmd/genproto\<close>).

  The lemmas say where that is in the repository, wherever the repository lies.
\<close>

section \<open>Clean, Join, Dir\<close>

fun split_slash :: "string \<Rightarrow> string list" where
  "split_slash [] = [[]]"
| "split_slash (c # cs) =
     (if c = CHR ''/'' then [] # split_slash cs
      else case split_slash cs of [] \<Rightarrow> [[c]] | p # ps \<Rightarrow> (c # p) # ps)"

text \<open>The elements of a path, with \<open>..\<close> resolved where there is an element before it; \<open>stack\<close> holds the
  elements so far, the last first.\<close>

fun resolve :: "bool \<Rightarrow> string list \<Rightarrow> string list \<Rightarrow> string list" where
  "resolve rooted stack [] = rev stack"
| "resolve rooted stack (p # ps) =
     (if p = [] \<or> p = ''.'' then resolve rooted stack ps
      else if p = ''..'' then
        (case stack of
           [] \<Rightarrow> resolve rooted (if rooted then [] else [p]) ps
         | q # qs \<Rightarrow> if q = ''..'' then resolve rooted (p # stack) ps else resolve rooted qs ps)
      else resolve rooted (p # stack) ps)"

fun join_slash :: "string list \<Rightarrow> string" where
  "join_slash [] = []"
| "join_slash [p] = p"
| "join_slash (p # ps) = p @ ''/'' @ join_slash ps"

definition Clean :: "string \<Rightarrow> string" where
  "Clean path =
     (let rooted = (path \<noteq> [] \<and> hd path = CHR ''/'');
          out = join_slash (resolve rooted [] (split_slash path))
      in if rooted then ''/'' @ out else if out = [] then ''.'' else out)"

definition Join :: "string list \<Rightarrow> string" where
  "Join elems =
     (let es = filter (\<lambda>e. e \<noteq> []) elems in if es = [] then [] else Clean (join_slash es))"

definition Dir :: "string \<Rightarrow> string" where
  "Dir path = Clean (rev (dropWhile (\<lambda>c. c \<noteq> CHR ''/'') (rev path)))"

section \<open>The directories of the generators\<close>

text \<open>\<open>thisFile\<close> is the path of the generator's source, \<open>wd\<close> the working directory.\<close>

definition genrpc_protoRoot :: "string \<Rightarrow> string" where
  "genrpc_protoRoot thisFile = Join [Dir thisFile, ''..'', ''..'', ''..'', ''proto'']"

definition genrpc_outPath :: "string \<Rightarrow> string" where
  "genrpc_outPath thisFile = Join [Dir thisFile, ''..'', ''..'', ''internal'', ''rpc'', ''handlers_gen.go'']"

definition java_protoRoot :: "string \<Rightarrow> string" where
  "java_protoRoot thisFile = Join [Dir thisFile, ''..'', ''..'', ''..'', ''proto'', ''app'']"

definition java_outDir :: "string \<Rightarrow> string" where
  "java_outDir thisFile = Join [Dir thisFile, ''..'', ''..'', ''..'', ''client'', ''src'', ''main'', ''java'', ''tech'', ''bobliu'', ''rpc'', ''app'']"

definition genproto_protoDir :: "string \<Rightarrow> string" where
  "genproto_protoDir wd = Join [wd, ''..'', ''..'', ''..'', ''proto'']"

definition genproto_outDir :: "string \<Rightarrow> string" where
  "genproto_outDir wd = Join [wd, ''..'', ''..'', ''pb'']"

section \<open>Absolute paths of plain elements\<close>

definition plain :: "string \<Rightarrow> bool" where
  "plain p \<longleftrightarrow> p \<noteq> [] \<and> p \<noteq> ''.'' \<and> p \<noteq> ''..'' \<and> CHR ''/'' \<notin> set p"

definition absolute_path :: "string list \<Rightarrow> string" where
  "absolute_path ps = ''/'' @ join_slash ps"

lemma split_slash_nonempty: "split_slash s \<noteq> []"
  by (cases s) (auto split: list.splits)

lemma split_slash_plain: "CHR ''/'' \<notin> set p \<Longrightarrow> split_slash p = [p]"
  by (induction p) auto

lemma split_slash_append: "split_slash (s @ CHR ''/'' # t) = split_slash s @ split_slash t"
proof (induction s)
  case (Cons c s)
  then show ?case using split_slash_nonempty [of s] by (auto split: list.splits)
qed simp

lemma split_join_slash: "ps \<noteq> [] \<Longrightarrow> split_slash (join_slash ps) = concat (map split_slash ps)"
  by (induction ps rule: join_slash.induct) (simp_all add: split_slash_append)

lemma split_slash_plain_list: "list_all plain ps \<Longrightarrow> concat (map split_slash ps) = ps"
  by (induction ps) (simp_all add: plain_def split_slash_plain)

lemma resolve_plain: "list_all plain ps \<Longrightarrow> resolve rooted stack (ps @ qs) = resolve rooted (rev ps @ stack) qs"
  by (induction ps arbitrary: stack) (simp_all add: plain_def)

lemma Clean_rooted: "Clean (CHR ''/'' # s) = absolute_path (resolve True [] (split_slash s))"
  by (simp add: Clean_def absolute_path_def)

lemma plain_nonempty: "list_all plain es \<Longrightarrow> filter (\<lambda>e. e \<noteq> []) es = es"
  by (induction es) (simp_all add: plain_def)

text \<open>\<open>Join\<close> of an absolute path with parts: the parts are appended, then the dots resolved.\<close>

lemma Join_absolute:
  assumes "list_all plain ps" "ps \<noteq> []" "\<forall>e\<in>set es. e \<noteq> [] \<and> CHR ''/'' \<notin> set e"
  shows "Join (absolute_path ps # es) = absolute_path (resolve True (rev ps) es)"
proof -
  have es: "filter (\<lambda>e. e \<noteq> []) es = es" "concat (map split_slash es) = es"
    using assms(3) by (induction es) (simp_all add: split_slash_plain)
  have "join_slash (absolute_path ps # es) = CHR ''/'' # join_slash (join_slash ps # es)"
    by (cases es) (simp_all add: absolute_path_def)
  then have "Join (absolute_path ps # es) = absolute_path (resolve True [] (split_slash (join_slash (join_slash ps # es))))"
    by (simp add: Join_def es Clean_rooted) (simp add: absolute_path_def Clean_rooted)
  also have "split_slash (join_slash (join_slash ps # es)) = ps @ es"
    using split_join_slash [of "join_slash ps # es"] split_join_slash [OF assms(2)] split_slash_plain_list [OF assms(1)] es
    by simp
  finally show ?thesis using resolve_plain [OF assms(1), of True "[]" es] by simp
qed

lemma join_slash_snoc: "ps \<noteq> [] \<Longrightarrow> join_slash (ps @ [f]) = join_slash ps @ ''/'' @ f"
proof (induction ps rule: join_slash.induct)
  case (3 p q qs)
  then show ?case by simp
qed simp_all

lemma Dir_absolute:
  assumes "list_all plain ps" "ps \<noteq> []" "plain f"
  shows "Dir (absolute_path (ps @ [f])) = absolute_path ps"
proof -
  have f: "\<forall>c\<in>set (rev f). c \<noteq> CHR ''/''" using assms(3) by (auto simp: plain_def)
  have "dropWhile (\<lambda>c. c \<noteq> CHR ''/'') (rev (absolute_path (ps @ [f]))) = rev (CHR ''/'' # join_slash ps @ ''/'')"
    using dropWhile_append2 [of "rev f" "\<lambda>c. c \<noteq> CHR ''/''"] f by (simp add: absolute_path_def join_slash_snoc [OF assms(2)])
  then have "Dir (absolute_path (ps @ [f])) = absolute_path (resolve True [] (split_slash (join_slash ps @ ''/'')))"
    by (simp add: Dir_def Clean_rooted)
  also have "split_slash (join_slash ps @ ''/'') = ps @ [[]]"
    using split_slash_append [of "join_slash ps" "[]"] split_join_slash [OF assms(2)] split_slash_plain_list [OF assms(1)] by simp
  finally show ?thesis using resolve_plain [OF assms(1), of True "[]" "[[]]"] by simp
qed

section \<open>Properties\<close>

text \<open>C35. The generators read and write where the repository has these files, wherever it is checked out:
  from \<open>server/cmd/genrpc/main.go\<close> the definitions are \<open>proto\<close> and the output
  \<open>server/internal/rpc/handlers_gen.go\<close>; the Java generator reads \<open>proto/app\<close> and writes below the client's
  sources; \<open>genproto\<close>, run by \<open>go generate\<close> in \<open>server/cmd/server\<close>, takes \<open>proto\<close> to \<open>server/pb\<close>.\<close>

theorem generator_paths:
  assumes "list_all plain root"
  shows "genrpc_protoRoot (absolute_path (root @ [''server'', ''cmd'', ''genrpc'', ''main.go''])) = absolute_path (root @ [''proto''])
    \<and> genrpc_outPath (absolute_path (root @ [''server'', ''cmd'', ''genrpc'', ''main.go''])) =
        absolute_path (root @ [''server'', ''internal'', ''rpc'', ''handlers_gen.go''])
    \<and> java_protoRoot (absolute_path (root @ [''server'', ''cmd'', ''genrpc-java'', ''main.go''])) =
        absolute_path (root @ [''proto'', ''app''])
    \<and> java_outDir (absolute_path (root @ [''server'', ''cmd'', ''genrpc-java'', ''main.go''])) =
        absolute_path (root @ [''client'', ''src'', ''main'', ''java'', ''tech'', ''bobliu'', ''rpc'', ''app''])
    \<and> genproto_protoDir (absolute_path (root @ [''server'', ''cmd'', ''server''])) = absolute_path (root @ [''proto''])
    \<and> genproto_outDir (absolute_path (root @ [''server'', ''cmd'', ''server''])) = absolute_path (root @ [''server'', ''pb''])"
proof -
  have names: "plain ''server''" "plain ''cmd''" "plain ''genrpc''" "plain ''genrpc-java''" "plain ''main.go''"
    by (simp_all add: plain_def)
  have join: "Join (absolute_path (root @ [''server'', ''cmd'', x]) # es) = absolute_path (resolve True ([x, ''cmd'', ''server''] @ rev root) es)"
    if "plain x" "\<forall>e\<in>set es. e \<noteq> [] \<and> CHR ''/'' \<notin> set e" for x es
    using Join_absolute [of "root @ [''server'', ''cmd'', x]" es] that assms names by simp
  have dir: "Dir (absolute_path (root @ [''server'', ''cmd'', x, ''main.go''])) = absolute_path (root @ [''server'', ''cmd'', x])"
    if "plain x" for x
    using Dir_absolute [of "root @ [''server'', ''cmd'', x]" "''main.go''"] that assms names by simp
  show ?thesis
    by (simp add: genrpc_protoRoot_def genrpc_outPath_def java_protoRoot_def java_outDir_def genproto_protoDir_def
        genproto_outDir_def dir join names)
qed

theorem generator_paths_witness:
  "genrpc_outPath ''/home/dev/server/cmd/genrpc/main.go'' = ''/home/dev/server/internal/rpc/handlers_gen.go''"
  using generator_paths [of "[''home'', ''dev'']"] by (simp add: plain_def absolute_path_def)

end
