(* ===== verification/Gen_Text.thy ===== *)
theory Gen_Text
  imports Genrpc Paths
begin

text \<open>
  The generators from files to files: walking the proto directory, the texts the templates of
  \<open>cmd/genrpc/main.go\<close> and \<open>cmd/genrpc-java/main.go\<close> produce, and the command line of
  \<open>cmd/genproto/main.go\<close>.

  \<open>filepath.Walk\<close> is the list of what it passes to its callback, in its order, with what reading the
  file gives. The templates are string functions; their trimming markers (\<open>{{-\<close>) remove the white space
  before them. Go iterates over the set of imports in no fixed order, so the order is an argument.

  Where the directories are is the subject of theory \<open>Paths\<close>.

  The lemmas follow a service definition from the text of a proto file to the registration in the
  generated Go file and to the declaration in the generated Java file.
\<close>

section \<open>Walking the proto directory\<close>

datatype walk_item = WalkError | WalkDir string | WalkFile (wf_path: string) (wf_base: string) (wf_data: "string option")

definition has_suffix :: "string \<Rightarrow> string \<Rightarrow> bool" where
  "has_suffix s suf \<longleftrightarrow> length suf \<le> length s \<and> drop (length s - length suf) s = suf"

text \<open>The callbacks return the error they are given, which ends the walk.\<close>

fun proto_items :: "walk_item list \<Rightarrow> (string \<times> string option) list" where
  "proto_items [] = []"
| "proto_items (WalkError # items) = []"
| "proto_items (WalkDir name # items) = proto_items items"
| "proto_items (WalkFile path name data # items) =
     (if has_suffix name ''.proto'' then (path, data) # proto_items items else proto_items items)"

text \<open>\<open>genrpc\<close> skips a file it cannot read; \<open>genrpc-java\<close> parses the empty text instead.\<close>

definition genrpc_parse :: "walk_item list \<Rightarrow> protoFile list" where
  "genrpc_parse items = gen_files (map parseProto (List.map_filter snd (proto_items items)))"

definition java_parse :: "walk_item list \<Rightarrow> protoFile list" where
  "java_parse items = map (\<lambda>(path, data). parseProto (case data of None \<Rightarrow> [] | Some d \<Rightarrow> d)) (proto_items items)"

section \<open>The Go template\<close>

definition nl :: string where
  "nl = [CHR 0x0A]"

definition tab :: string where
  "tab = [CHR 0x09]"

definition dq :: string where
  "dq = [CHR 0x22]"

definition go_header :: string where
  "go_header = ''// Code generated by genrpc; DO NOT EDIT.'' @ nl @ nl @ ''package rpc'' @ nl @ nl @ ''import ('' @ nl @ tab @ dq @ ''context'' @ dq @ nl @ nl @ tab @ dq @ ''google.golang.org/protobuf/proto'' @ dq @ nl @ nl @ tab @ dq @ ''rpc-server/internal/router'' @ dq @ nl"

definition go_import :: "string \<times> string \<Rightarrow> string" where
  "go_import i = (case i of (alias, path) \<Rightarrow> tab @ alias @ '' '' @ dq @ path @ dq @ nl)"

definition go_method_decl :: "methodTemplateData \<Rightarrow> string" where
  "go_method_decl m = nl @ tab @ RpcName m @ ''(ctx context.Context, req *'' @ RequestGo m @ '') (*'' @ ResponseGo m @ '', error)''"

definition go_registration :: "string \<Rightarrow> methodTemplateData \<Rightarrow> string" where
  "go_registration svc m =
     nl @ tab @ ''r.Register('' @ dq @ svc @ dq @ '', '' @ dq @ RouterKey m @ dq @
     '', func(ctx context.Context, payload []byte) ([]byte, error) {'' @
     nl @ tab @ tab @ ''req := '' @ RequestNew m @
     nl @ tab @ tab @ ''if err := proto.Unmarshal(payload, req); err != nil {'' @
     nl @ tab @ tab @ tab @ ''return nil, err'' @
     nl @ tab @ tab @ ''}'' @
     nl @ tab @ tab @ ''resp, err := svc.'' @ RpcName m @ ''(ctx, req)'' @
     nl @ tab @ tab @ ''if err != nil {'' @
     nl @ tab @ tab @ tab @ ''return nil, err'' @
     nl @ tab @ tab @ ''}'' @
     nl @ tab @ tab @ ''return proto.Marshal(resp)'' @
     nl @ tab @ ''})''"

definition go_service :: "serviceTemplateData \<Rightarrow> string" where
  "go_service t =
     nl @ ''type '' @ HandlerName t @ '' interface {'' @ concat (map go_method_decl (TMethods t)) @ nl @ ''}'' @ nl @
     nl @ ''func Register'' @ TServiceName t @ ''(r *router.Router, svc '' @ HandlerName t @ '') {'' @
     concat (map (go_registration (TServiceName t)) (TMethods t)) @ nl @ ''}'' @ nl"

definition genTemplate :: "(string \<times> string) list \<Rightarrow> serviceTemplateData list \<Rightarrow> string" where
  "genTemplate imports services =
     go_header @ concat (map go_import imports) @ '')'' @ nl @ concat (map go_service services)"

definition emptyGenFile :: string where
  "emptyGenFile = ''// Code generated by genrpc; DO NOT EDIT.'' @ nl @ nl @ ''package rpc'' @ nl @ nl @ ''// No protobuf service definitions found.'' @ nl"

text \<open>The exit code and what is written to \<open>internal/rpc/handlers_gen.go\<close>. \<open>creatable\<close> says whether the file
  can be created; without services a failure is ignored. \<open>imports\<close> is the order in which Go iterates over
  the import set, one of \<open>import_orders\<close>.\<close>

definition genrpc_main :: "bool \<Rightarrow> (string \<times> string) list \<Rightarrow> walk_item list \<Rightarrow> int \<times> string option" where
  "genrpc_main creatable imports items =
     (let pfs = genrpc_parse items in
      if pfs = [] then (0, if creatable then Some emptyGenFile else None)
      else if creatable then (0, Some (genTemplate imports (gen_services pfs)))
      else (1, None))"

definition import_orders :: "walk_item list \<Rightarrow> (string \<times> string) list set" where
  "import_orders items = {imports. set imports = gen_imports (genrpc_parse items)}"

section \<open>The Java template\<close>

definition java_method :: "javaMethod \<Rightarrow> string" where
  "java_method m =
     nl @ ''    @RpcMethod(requestType = '' @ JRequest m @ ''.class, responseType = '' @ JResponse m @ ''.class)'' @
     nl @ ''    '' @ JResponse m @ '' '' @ JavaName m @ ''('' @ JRequest m @ '' request);''"

definition javaTmpl :: "javaFileData \<Rightarrow> string" where
  "javaTmpl d =
     ''package '' @ JPackage d @ '';'' @ nl @ nl @ ''import '' @ JProtoPkg d @ ''.*;'' @ nl @
     ''import tech.bobliu.rpc.annotation.RpcMethod;'' @ nl @ ''import tech.bobliu.rpc.annotation.RpcService;'' @ nl @ nl @
     ''@RpcService('' @ dq @ JService d @ dq @ '')'' @ nl @
     ''public interface '' @ JService d @ ''Rpc {'' @ concat (map java_method (JMethods d)) @ nl @ ''}'' @ nl"

text \<open>The output directory after the walk, from what it held before: each service's file is created, or
  truncated, and written; \<open>creatable\<close> says which \<open>os.Create\<close> succeeds for, and the others are skipped.
  Writing to a file that was created succeeds.\<close>

definition java_create :: "(string \<Rightarrow> bool) \<Rightarrow> javaFileData \<Rightarrow> (string \<rightharpoonup> string) \<Rightarrow> (string \<rightharpoonup> string)" where
  "java_create creatable d disk =
     (let name = JService d @ ''Rpc.java'' in if creatable name then disk(name \<mapsto> javaTmpl d) else disk)"

definition genrpc_java_main :: "(string \<Rightarrow> bool) \<Rightarrow> walk_item list \<Rightarrow> (string \<rightharpoonup> string) \<Rightarrow> (string \<rightharpoonup> string)" where
  "genrpc_java_main creatable items disk = fold (java_create creatable) (gen_java (java_parse items)) disk"

section \<open>The protoc driver\<close>

text \<open>The arguments of the \<open>protoc\<close> command; \<open>absolute\<close> is \<open>filepath.Abs\<close> without its error.\<close>

definition genproto_args :: "(string \<Rightarrow> string) \<Rightarrow> string \<Rightarrow> string \<Rightarrow> walk_item list \<Rightarrow> string list" where
  "genproto_args absolute protoDir outDir items =
     [''--proto_path='' @ absolute protoDir, ''--go_out='' @ absolute outDir, ''--go_opt=module=rpc-server/pb''] @
     map (absolute \<circ> fst) (proto_items items)"

text \<open>The exit code; \<open>run\<close> says whether running a command with arguments succeeds, \<open>walk\<close> what a directory
  holds, \<open>wd\<close> is the working directory.\<close>

definition genproto_main ::
    "(string \<Rightarrow> string list \<Rightarrow> bool) \<Rightarrow> (string \<Rightarrow> string) \<Rightarrow> string \<Rightarrow> (string \<Rightarrow> walk_item list) \<Rightarrow> int" where
  "genproto_main run absolute wd walk =
     (let protoDir = genproto_protoDir wd; outDir = genproto_outDir wd in
      if run ''protoc'' (genproto_args absolute protoDir outDir (walk protoDir)) then 0 else 1)"

section \<open>From the text of a definition to the generated texts\<close>

lemma no_comment_here: "CHR ''/'' \<notin> set s \<Longrightarrow> match_here reComment p s = None"
  by (cases s) (simp_all add: match_here_def reComment_def rmatch.simps(2))

lemma no_comment: "CHR ''/'' \<notin> set s \<Longrightarrow> re_remove reComment p s = s"
proof (induction s arbitrary: p)
  case Nil
  then show ?case using no_comment_here [of "[]" p] by (subst re_remove.simps) simp
next
  case (Cons c s)
  then show ?case using no_comment_here [of "c # s" p] by (subst re_remove.simps) simp
qed

lemma wf_no_slash:
  "wf_name s \<Longrightarrow> CHR ''/'' \<notin> set s" "wf_type s \<Longrightarrow> CHR ''/'' \<notin> set s"
proof -
  have "\<not> is_word CHR ''/''" by (simp add: is_word_def)
  then show "wf_name s \<Longrightarrow> CHR ''/'' \<notin> set s" "wf_type s \<Longrightarrow> CHR ''/'' \<notin> set s"
    by (auto simp: wf_name_def wf_type_def list_all_iff)
qed

lemma format_methods_no_slash: "list_all wf_method ms \<Longrightarrow> CHR ''/'' \<notin> set (format_methods ms)"
proof (induction ms)
  case (Cons m ms)
  then have "CHR ''/'' \<notin> set (md_name m) \<union> set (md_requestType m) \<union> set (md_responseType m)"
    using wf_no_slash by (simp add: wf_method_def)
  with Cons show ?case by (auto simp: format_methods_def format_method_def)
qed (simp add: format_methods_def)

lemma format_services_no_slash: "list_all wf_service svcs \<Longrightarrow> CHR ''/'' \<notin> set (format_services svcs)"
proof (induction svcs)
  case (Cons svc svcs)
  then have "CHR ''/'' \<notin> set (sd_name svc) \<union> set (format_methods (sd_methods svc))"
    using wf_no_slash format_methods_no_slash by (simp add: wf_service_def)
  with Cons show ?case by (auto simp: format_services_def format_service_def)
qed (simp add: format_services_def)

lemma parseProto_services: "list_all wf_service svcs \<Longrightarrow> pf_services (parseProto (format_services svcs)) = svcs"
  using find_services [of svcs None]
  by (simp add: parseProto_def no_comment format_services_no_slash parse_services_def Let_def)

lemma sublist_in_append: "sublist w s \<Longrightarrow> sublist w (u @ s)" "sublist w s \<Longrightarrow> sublist w (s @ u)"
  by (auto simp: sublist_append)

lemma sublist_concat: "x \<in> set xs \<Longrightarrow> sublist w (f x) \<Longrightarrow> sublist w (concat (map f xs))"
  by (induction xs) (auto intro: sublist_in_append)

lemma genrpc_parse_file:
  assumes "(path, Some data) \<in> set (proto_items items)" "pf_services (parseProto data) \<noteq> []"
  shows "parseProto data \<in> set (genrpc_parse items)"
  using assms by (force simp: genrpc_parse_def gen_files_def map_filter_def)

lemma java_parse_file:
  "(path, Some data) \<in> set (proto_items items) \<Longrightarrow> parseProto data \<in> set (java_parse items)"
  by (force simp: java_parse_def)

lemma gen_files_idem: "gen_files (genrpc_parse items) = genrpc_parse items"
  by (simp add: genrpc_parse_def gen_files_def)

text \<open>The registration of a method as the template writes it, and its declaration in the Java file.\<close>

definition registration_head :: "string \<Rightarrow> string \<Rightarrow> string" where
  "registration_head svc key = ''r.Register('' @ dq @ svc @ dq @ '', '' @ dq @ key @ dq @ '', func''"

lemma go_registration_head: "sublist (registration_head svc (RouterKey m)) (go_registration svc m)"
proof -
  obtain u v where "go_registration svc m = u @ registration_head svc (RouterKey m) @ v"
    by (rule that [of "nl @ tab"]) (simp add: go_registration_def registration_head_def)
  then show ?thesis by (auto simp: sublist_def)
qed

lemma genTemplate_registration:
  assumes "t \<in> set ts" "m \<in> set (TMethods t)"
  shows "sublist (registration_head (TServiceName t) (RouterKey m)) (genTemplate imports ts)"
proof -
  have "sublist (registration_head (TServiceName t) (RouterKey m))
      (concat (map (go_registration (TServiceName t)) (TMethods t)))"
    by (rule sublist_concat [OF assms(2) go_registration_head])
  then have "sublist (registration_head (TServiceName t) (RouterKey m)) (go_service t)"
    unfolding go_service_def by (intro sublist_in_append)
  then have "sublist (registration_head (TServiceName t) (RouterKey m)) (concat (map go_service ts))"
    by (rule sublist_concat [OF assms(1)])
  then show ?thesis unfolding genTemplate_def by (intro sublist_in_append)
qed

lemma gen_services_mem:
  assumes "pf \<in> set pfs" "svc \<in> set (pf_services pf)"
  shows "gen_service (pkg_map (gen_files pfs)) (pf_pkg pf) svc \<in> set (gen_services pfs)"
  using assms by (force simp: gen_services_def gen_files_def)

lemma genrpc_main_registers:
  assumes "pf \<in> set (genrpc_parse items)" "svc \<in> set (pf_services pf)" "m \<in> set (sd_methods svc)"
  obtains out where "genrpc_main True imports items = (0, Some out)"
    and "sublist (registration_head (sd_name svc) (lowerFirst (md_name m))) out"
proof
  let ?pfs = "genrpc_parse items"
  let ?t = "gen_service (pkg_map (gen_files ?pfs)) (pf_pkg pf) svc"
  show "genrpc_main True imports items = (0, Some (genTemplate imports (gen_services ?pfs)))"
    using assms(1) by (auto simp: genrpc_main_def Let_def)
  have "gen_method (pkg_map (gen_files ?pfs)) (pf_pkg pf) m \<in> set (TMethods ?t)"
    using assms(3) by (simp add: gen_service_def)
  from genTemplate_registration [OF gen_services_mem [OF assms(1,2)] this]
  show "sublist (registration_head (sd_name svc) (lowerFirst (md_name m))) (genTemplate imports (gen_services ?pfs))"
    by (simp add: gen_service_def gen_method_def Let_def)
qed

definition java_annotation :: "string \<Rightarrow> string" where
  "java_annotation svc = ''@RpcService('' @ dq @ svc @ dq @ '')''"

definition java_call :: "string \<Rightarrow> string" where
  "java_call name = '' '' @ name @ ''(''"

text \<open>The files of the services are distinct when their names are.\<close>

lemma java_create_other:
  "JService d @ ''Rpc.java'' \<noteq> name \<Longrightarrow> java_create creatable d disk name = disk name"
  by (simp add: java_create_def Let_def)

lemma java_files:
  assumes "d \<in> set ds" "distinct (map JService ds)" "creatable (JService d @ ''Rpc.java'')"
  shows "fold (java_create creatable) ds disk (JService d @ ''Rpc.java'') = Some (javaTmpl d)"
proof -
  have later: "fold (java_create creatable) es disk name = disk name"
    if "\<forall>e\<in>set es. JService e @ ''Rpc.java'' \<noteq> name" for es disk name
    using that by (induction es arbitrary: disk) (simp_all add: java_create_other)
  obtain es fs where ds: "ds = es @ d # fs" using assms(1) by (auto simp: in_set_conv_decomp)
  with assms(2) have "\<forall>e\<in>set fs. JService e @ ''Rpc.java'' \<noteq> JService d @ ''Rpc.java''" by (auto simp: image_iff)
  with ds later assms(3) show ?thesis by (simp add: java_create_def Let_def)
qed

definition service_names :: "protoFile list \<Rightarrow> string list" where
  "service_names pfs = map sd_name (concat (map pf_services pfs))"

lemma gen_java_names: "map JService (gen_java pfs) = service_names pfs"
  by (simp add: gen_java_def service_names_def map_concat o_def)

lemma java_main_declares:
  assumes "pf \<in> set (java_parse items)" "svc \<in> set (pf_services pf)" "m \<in> set (sd_methods svc)"
    and "creatable (sd_name svc @ ''Rpc.java'')" "distinct (service_names (java_parse items))"
  obtains out where "genrpc_java_main creatable items disk (sd_name svc @ ''Rpc.java'') = Some out"
    and "sublist (java_annotation (sd_name svc)) out" "sublist (java_call (lowerFirst (md_name m))) out"
proof
  let ?d = "\<lparr>JPackage = ''tech.bobliu.rpc.app'', JService = sd_name svc,
       JMethods = map gen_java_method (sd_methods svc), JProtoPkg = pf_javaPkg pf\<rparr>"
  have "?d \<in> set (gen_java (java_parse items))" using assms(1,2) by (force simp: gen_java_def)
  from java_files [OF this] assms(4,5)
  show "genrpc_java_main creatable items disk (sd_name svc @ ''Rpc.java'') = Some (javaTmpl ?d)"
    by (simp add: genrpc_java_main_def gen_java_names)
  obtain u v where "javaTmpl ?d = u @ java_annotation (sd_name svc) @ v"
    by (rule that [of "''package tech.bobliu.rpc.app;'' @ nl @ nl @ ''import '' @ pf_javaPkg pf @ ''.*;'' @ nl @
      ''import tech.bobliu.rpc.annotation.RpcMethod;'' @ nl @ ''import tech.bobliu.rpc.annotation.RpcService;'' @ nl @ nl"])
      (simp add: javaTmpl_def java_annotation_def)
  then show "sublist (java_annotation (sd_name svc)) (javaTmpl ?d)" by (auto simp: sublist_def)
  obtain u v where "java_method (gen_java_method m) = u @ java_call (lowerFirst (md_name m)) @ v"
    by (rule that [of "nl @ ''    @RpcMethod(requestType = '' @ java_typeName (md_requestType m) @ ''.class, responseType = '' @
      java_typeName (md_responseType m) @ ''.class)'' @ nl @ ''    '' @ java_typeName (md_responseType m)"])
      (simp add: java_method_def java_call_def gen_java_method_def java_lowerFirst_eq)
  then have "sublist (java_call (lowerFirst (md_name m))) (java_method (gen_java_method m))" by (auto simp: sublist_def)
  then have "sublist (java_call (lowerFirst (md_name m))) (concat (map java_method (map gen_java_method (sd_methods svc))))"
    using assms(3) by (intro sublist_concat [of "gen_java_method m"]) simp_all
  then show "sublist (java_call (lowerFirst (md_name m))) (javaTmpl ?d)"
    unfolding javaTmpl_def by (intro sublist_in_append) simp
qed

text \<open>The Go file imports every package its methods' types were resolved to, whatever the order of the
  import set.\<close>

lemma genrpc_main_imports:
  assumes "pf \<in> set (genrpc_parse items)" "svc \<in> set (pf_services pf)" "m \<in> set (sd_methods svc)"
    and "ty = md_requestType m \<or> ty = md_responseType m"
    and "path = pkgPath (resolveType ty (pf_pkg pf) (pkg_map (genrpc_parse items)))" "CHR '' '' \<notin> set (toAlias path)"
    and "imports \<in> import_orders items"
  obtains out where "genrpc_main True imports items = (0, Some out)" "sublist (go_import (toAlias path, path)) out"
proof
  show "genrpc_main True imports items = (0, Some (genTemplate imports (gen_services (genrpc_parse items))))"
    using assms(1) by (auto simp: genrpc_main_def Let_def)
  have "(toAlias path, path) \<in> set imports"
    using generated_imports_cover [OF assms(1-4)] assms(5-7) by (simp add: gen_files_idem import_orders_def)
  then have "sublist (go_import (toAlias path, path)) (concat (map go_import imports))" by (rule sublist_concat) simp
  then show "sublist (go_import (toAlias path, path)) (genTemplate imports (gen_services (genrpc_parse items)))"
    unfolding genTemplate_def by (intro sublist_in_append)
qed

end
