(* ===== verification/Proto_Files.thy ===== *)
theory Proto_Files
  imports Gen_Text
begin

text \<open>
  The service definitions of the repository as files: the texts of \<open>proto/app/*.proto\<close> and
  \<open>proto/framework/*.proto\<close>, and what the generators' parser makes of them. The parses are evaluated
  stage by stage, which keeps each evaluation short. In the end a method is followed from the text of a
  proto file to the files of both generators.
\<close>

section \<open>The files\<close>

definition gacha_text :: string where
  "gacha_text =
     ''syntax = '' @ dq @ ''proto3'' @ dq @ '';'' @ nl @ ''package app;'' @ nl @
     ''option go_package = '' @ dq @ ''rpc-server/pb/app'' @ dq @ '';'' @ nl @
     ''option java_package = '' @ dq @ ''tech.bobliu.rpc.proto.app'' @ dq @ '';'' @ nl @
     ''option java_multiple_files = true;'' @ nl @ nl @ ''message DrawRequest {'' @ nl @
     ''  int64 user_id = 1;'' @ nl @ ''  int32 count = 2;'' @ nl @ ''}'' @ nl @ nl @
     ''message Card {'' @ nl @ ''  string name = 1;'' @ nl @ ''  int32 stars = 2;'' @ nl @ ''}'' @ nl @ nl @
     ''message DrawResponse {'' @ nl @ ''  repeated Card cards = 1;'' @ nl @
     ''  string instance = 2;'' @ nl @ ''}'' @ nl @ nl @ ''service GachaService {'' @ nl @
     ''  rpc Draw(DrawRequest) returns (DrawResponse);'' @ nl @ ''}'' @ nl"

definition user_text :: string where
  "user_text =
     ''syntax = '' @ dq @ ''proto3'' @ dq @ '';'' @ nl @ ''package app;'' @ nl @
     ''option go_package = '' @ dq @ ''rpc-server/pb/app'' @ dq @ '';'' @ nl @
     ''option java_package = '' @ dq @ ''tech.bobliu.rpc.proto.app'' @ dq @ '';'' @ nl @
     ''option java_multiple_files = true;'' @ nl @ nl @ ''message RegisterRequest {'' @ nl @
     ''  string name = 1;'' @ nl @ ''  string password = 2;'' @ nl @ ''}'' @ nl @ nl @
     ''message RegisterResponse {'' @ nl @ ''  int64 user_id = 1;'' @ nl @ ''  string message = 2;'' @ nl @
     ''}'' @ nl @ nl @ ''message LoginRequest {'' @ nl @ ''  string name = 1;'' @ nl @
     ''  string password = 2;'' @ nl @ ''}'' @ nl @ nl @ ''message LoginResponse {'' @ nl @
     ''  int64 user_id = 1;'' @ nl @ ''  string message = 2;'' @ nl @ ''}'' @ nl @ nl @
     ''message LogoutRequest {'' @ nl @ ''  int64 user_id = 1;'' @ nl @ ''}'' @ nl @ nl @
     ''message LogoutResponse {'' @ nl @ ''  string message = 1;'' @ nl @ ''}'' @ nl @ nl @
     ''service UserService {'' @ nl @ ''  rpc Register(RegisterRequest) returns (RegisterResponse);'' @ nl @
     ''  rpc Login(LoginRequest) returns (LoginResponse);'' @ nl @
     ''  rpc Logout(LogoutRequest) returns (LogoutResponse);'' @ nl @ ''}'' @ nl"

definition registry_text :: string where
  "registry_text =
     ''syntax = '' @ dq @ ''proto3'' @ dq @ '';'' @ nl @ ''package registry;'' @ nl @
     ''option go_package = '' @ dq @ ''rpc-server/pb'' @ dq @ '';'' @ nl @
     ''option java_package = '' @ dq @ ''tech.bobliu.rpc.proto'' @ dq @ '';'' @ nl @
     ''option java_multiple_files = true;'' @ nl @ nl @ ''message RegisterRequest {'' @ nl @
     ''  int32 port = 1;'' @ nl @ ''  string service = 2;'' @ nl @ ''}'' @ nl @ nl @
     ''message HeartbeatRequest {'' @ nl @ ''  int32 port = 1;'' @ nl @ ''}'' @ nl @ nl @
     ''message SubscribeRequest {}'' @ nl @ nl @ ''message RegistryResponse {'' @ nl @
     ''  bool success = 1;'' @ nl @ ''  string message = 2;'' @ nl @ ''}'' @ nl @ nl @
     ''message ServiceInfo {'' @ nl @ ''  string ip = 1;'' @ nl @ ''  int32 port = 2;'' @ nl @ ''}'' @ nl @
     nl @ ''message ServiceListEntry {'' @ nl @ ''  repeated ServiceInfo instances = 1;'' @ nl @ ''}'' @ nl @
     nl @ ''message ServiceList {'' @ nl @ ''  map<string, ServiceListEntry> services = 1;'' @ nl @
     ''}'' @ nl @ nl @ ''message RegistryMessage {'' @ nl @ ''  oneof payload {'' @ nl @
     ''    RegisterRequest register = 1;'' @ nl @ ''    HeartbeatRequest heartbeat = 2;'' @ nl @
     ''    SubscribeRequest subscribe = 3;'' @ nl @ ''    RegistryResponse response = 4;'' @ nl @
     ''    ServiceList service_list = 5;'' @ nl @ ''  }'' @ nl @ ''}'' @ nl"

definition rpc_text :: string where
  "rpc_text =
     ''syntax = '' @ dq @ ''proto3'' @ dq @ '';'' @ nl @ ''package rpc;'' @ nl @
     ''option go_package = '' @ dq @ ''rpc-server/pb'' @ dq @ '';'' @ nl @
     ''option java_package = '' @ dq @ ''tech.bobliu.rpc.proto'' @ dq @ '';'' @ nl @
     ''option java_multiple_files = true;'' @ nl @ nl @ ''message RpcRequest {'' @ nl @
     ''  string request_id = 1;'' @ nl @ ''  string service = 2;'' @ nl @ ''  string method = 3;'' @ nl @
     ''  bytes payload = 4;'' @ nl @ ''}'' @ nl @ nl @ ''message RpcResponse {'' @ nl @
     ''  string request_id = 1;'' @ nl @ ''  bytes payload = 2;'' @ nl @ ''  Error error = 3;'' @ nl @
     ''}'' @ nl @ nl @ ''message Error {'' @ nl @ ''  int32 code = 1;'' @ nl @
     ''  string message = 2;'' @ nl @ ''}'' @ nl"

section \<open>What is parsed\<close>

lemma gacha_text_comments: "re_remove reComment None gacha_text = gacha_text"
  by code_simp

lemma gacha_text_package: "first_capture rePackage gacha_text = pf_pkg gacha_proto"
  by code_simp

lemma gacha_text_go_package: "first_capture reGoPackage gacha_text = pf_goPackage gacha_proto"
  by code_simp

lemma gacha_text_java_package: "first_capture reJavaPkg gacha_text = pf_javaPkg gacha_proto"
  by code_simp

lemma gacha_text_services: "parse_services gacha_text = pf_services gacha_proto"
  by code_simp

lemma gacha_text_parses: "parseProto gacha_text = gacha_proto"
  by (simp add: parseProto_def gacha_text_comments gacha_text_package gacha_text_go_package gacha_text_java_package gacha_text_services)

lemma user_text_comments: "re_remove reComment None user_text = user_text"
  by code_simp

lemma user_text_package: "first_capture rePackage user_text = pf_pkg user_proto"
  by code_simp

lemma user_text_go_package: "first_capture reGoPackage user_text = pf_goPackage user_proto"
  by code_simp

lemma user_text_java_package: "first_capture reJavaPkg user_text = pf_javaPkg user_proto"
  by code_simp

lemma user_text_services: "parse_services user_text = pf_services user_proto"
  by code_simp

lemma user_text_parses: "parseProto user_text = user_proto"
  by (simp add: parseProto_def user_text_comments user_text_package user_text_go_package user_text_java_package user_text_services)

lemma registry_text_comments: "re_remove reComment None registry_text = registry_text"
  by code_simp

lemma registry_text_services: "parse_services registry_text = []"
  by code_simp

lemma registry_text_parses: "pf_services (parseProto registry_text) = []"
  by (simp add: parseProto_def Let_def registry_text_comments registry_text_services)

lemma rpc_text_comments: "re_remove reComment None rpc_text = rpc_text"
  by code_simp

lemma rpc_text_services: "parse_services rpc_text = []"
  by code_simp

lemma rpc_text_parses: "pf_services (parseProto rpc_text) = []"
  by (simp add: parseProto_def Let_def rpc_text_comments rpc_text_services)

section \<open>The walks\<close>

text \<open>What \<open>filepath.Walk\<close> visits, in lexical order, below \<open>proto\<close> and below \<open>proto/app\<close>.\<close>

definition app_walk :: "walk_item list" where
  "app_walk =
     [WalkDir ''app'', WalkFile ''proto/app/gacha_service.proto'' ''gacha_service.proto'' (Some gacha_text),
      WalkFile ''proto/app/user_service.proto'' ''user_service.proto'' (Some user_text)]"

definition proto_walk :: "walk_item list" where
  "proto_walk = WalkDir ''proto'' # app_walk @
     [WalkDir ''framework'', WalkFile ''proto/framework/registry.proto'' ''registry.proto'' (Some registry_text),
      WalkFile ''proto/framework/rpc.proto'' ''rpc.proto'' (Some rpc_text)]"

lemma proto_walk_items:
  "proto_items proto_walk =
     [(''proto/app/gacha_service.proto'', Some gacha_text), (''proto/app/user_service.proto'', Some user_text),
      (''proto/framework/registry.proto'', Some registry_text), (''proto/framework/rpc.proto'', Some rpc_text)]"
  "proto_items app_walk =
     [(''proto/app/gacha_service.proto'', Some gacha_text), (''proto/app/user_service.proto'', Some user_text)]"
  by (simp_all add: proto_walk_def app_walk_def has_suffix_def)

lemma repository_parse:
  "genrpc_parse proto_walk = [gacha_proto, user_proto]" "java_parse app_walk = [gacha_proto, user_proto]"
proof -
  have "pf_services gacha_proto \<noteq> []" "pf_services user_proto \<noteq> []" by (simp_all add: gacha_proto_def user_proto_def)
  then show "genrpc_parse proto_walk = [gacha_proto, user_proto]" "java_parse app_walk = [gacha_proto, user_proto]"
    by (simp_all add: genrpc_parse_def java_parse_def proto_walk_items map_filter_def gen_files_def
        gacha_text_parses user_text_parses registry_text_parses rpc_text_parses)
qed

section \<open>Properties\<close>

text \<open>C14. From one proto file to both sides of a call: for every readable proto file that both walks visit,
  whatever else it and the other files hold, and every method of every service the parser finds in it, the
  Go generator writes a file that registers the method, and the Java generator leaves on disk, in the file
  of its service, an interface annotated with the same service name that declares a method of the same,
  lower-case, name. Assumed: the Go output and that Java file can be created, and no two services that the
  Java generator visits share a name (the file of an earlier one would be overwritten).\<close>

theorem generators_from_source:
  assumes "(path, Some data) \<in> set (proto_items items)" "(path, Some data) \<in> set (proto_items app_items)"
    and "svc \<in> set (pf_services (parseProto data))" "m \<in> set (sd_methods svc)"
    and "creatable (sd_name svc @ ''Rpc.java'')" "distinct (service_names (java_parse app_items))"
  shows "\<exists>go java. genrpc_main True imports items = (0, Some go) \<and>
    sublist (registration_head (sd_name svc) (lowerFirst (md_name m))) go \<and>
    genrpc_java_main creatable app_items disk (sd_name svc @ ''Rpc.java'') = Some java \<and>
    sublist (java_annotation (sd_name svc)) java \<and> sublist (java_call (lowerFirst (md_name m))) java"
proof -
  have "pf_services (parseProto data) \<noteq> []" using assms(3) by auto
  with assms(1) have go: "parseProto data \<in> set (genrpc_parse items)" by (rule genrpc_parse_file)
  have java: "parseProto data \<in> set (java_parse app_items)" by (rule java_parse_file [OF assms(2)])
  obtain g where "genrpc_main True imports items = (0, Some g)"
    "sublist (registration_head (sd_name svc) (lowerFirst (md_name m))) g"
    using genrpc_main_registers [OF go assms(3,4)] by blast
  moreover obtain j where "genrpc_java_main creatable app_items disk (sd_name svc @ ''Rpc.java'') = Some j"
    "sublist (java_annotation (sd_name svc)) j" "sublist (java_call (lowerFirst (md_name m))) j"
    using java_main_declares [where creatable = creatable and disk = disk, OF java assms(3,4,5,6)] by blast
  ultimately show ?thesis by blast
qed

theorem generators_from_source_witness:
  "\<exists>go java. genrpc_main True [] proto_walk = (0, Some go) \<and>
    sublist (registration_head ''UserService'' (lowerFirst ''Login'')) go \<and>
    genrpc_java_main (\<lambda>_. True) app_walk (\<lambda>_. None) ''UserServiceRpc.java'' = Some java \<and>
    sublist (java_annotation ''UserService'') java \<and> sublist (java_call (lowerFirst ''Login'')) java"
proof -
  let ?svc = "hd (pf_services user_proto)"
  have items: "(''proto/app/user_service.proto'', Some user_text) \<in> set (proto_items proto_walk)"
    "(''proto/app/user_service.proto'', Some user_text) \<in> set (proto_items app_walk)"
    by (simp_all add: proto_walk_items)
  have mem: "?svc \<in> set (pf_services (parseProto user_text))" "sd_methods ?svc ! Suc 0 \<in> set (sd_methods ?svc)"
    by (simp_all add: user_text_parses) (simp_all add: user_proto_def)
  have "distinct (service_names (java_parse app_walk))"
    by (simp add: repository_parse service_names_def gacha_proto_def user_proto_def)
  moreover have names: "sd_name ?svc = ''UserService''" "md_name (sd_methods ?svc ! Suc 0) = ''Login''"
    by (simp_all add: user_proto_def)
  ultimately show ?thesis
    using generators_from_source [OF items mem, of "\<lambda>_. True" "[]" "\<lambda>_. None"]
    by (simp add: names del: lowerFirst.simps)
qed

end
