(* ===== verification/Wiring.thy ===== *)
theory Wiring
  imports Lifecycle Config User_Service Gacha_Service Proto_Files
begin

text \<open>
  How \<open>cmd/server/main.go\<close> puts the parts together: the services behind the generated handlers and the
  router, the registry client and the server built from the configuration.

  The handlers share one world: the database, the random generator and a clock of database statements,
  by which \<open>faults\<close> says which statement fails. The protobuf encoding of the application messages is a
  parameter (\<open>app_pb\<close>), as that of the framework messages is.
\<close>

section \<open>The services as generated handlers\<close>

record app_pb =
  unmarshal_RegisterRequest :: "bytes \<Rightarrow> string + UserRegisterRequest"
  marshal_RegisterResponse :: "UserResponse \<Rightarrow> string + bytes"
  unmarshal_LoginRequest :: "bytes \<Rightarrow> string + LoginRequest"
  marshal_LoginResponse :: "UserResponse \<Rightarrow> string + bytes"
  unmarshal_LogoutRequest :: "bytes \<Rightarrow> string + LogoutRequest"
  marshal_LogoutResponse :: "string \<Rightarrow> string + bytes"
  unmarshal_DrawRequest :: "bytes \<Rightarrow> string + DrawRequest"
  marshal_DrawResponse :: "DrawResponse \<Rightarrow> string + bytes"

record 'g app_world =
  world_db :: database
  world_rand :: 'g
  db_clock :: nat

type_synonym fault_plan = "nat \<Rightarrow> string option"

definition call_Register :: "fault_plan \<Rightarrow> (UserRegisterRequest, UserResponse, 'g app_world) rpc_method" where
  "call_Register faults req w =
     (case UserService_Register (faults (db_clock w)) req (world_db w) of
        (resp, d) \<Rightarrow> (Some (Inr resp), w\<lparr>world_db := d, db_clock := db_clock w + 1\<rparr>))"

definition call_Login :: "fault_plan \<Rightarrow> (LoginRequest, UserResponse, 'g app_world) rpc_method" where
  "call_Login faults req w =
     (Some (Inr (UserService_Login (faults (db_clock w)) req (world_db w))), w\<lparr>db_clock := db_clock w + 1\<rparr>)"

definition call_Logout :: "(LogoutRequest, string, 'g app_world) rpc_method" where
  "call_Logout req w = (Some (Inr (UserService_Logout req)), w)"

definition call_Draw ::
    "GachaService \<Rightarrow> 'g rand_source \<Rightarrow> pool \<Rightarrow> fault_plan \<Rightarrow> (DrawRequest, DrawResponse, 'g app_world) rpc_method" where
  "call_Draw s rnd pool faults req w =
     (case Draw s rnd pool (\<lambda>i. faults (db_clock w + i)) req (world_rand w) (world_db w) of
        (res, g, d) \<Rightarrow>
          (case res of Drawn resp \<Rightarrow> Some (Inr resp) | DrawError e \<Rightarrow> Some (Inl e) | DrawPanic \<Rightarrow> None,
           w\<lparr>world_db := d, world_rand := g, db_clock := db_clock w + (case res of DrawError _ \<Rightarrow> 0 | _ \<Rightarrow> nat (sint (Count req)))\<rparr>))"

record 'g app =
  app_encoding :: app_pb
  app_rand :: "'g rand_source"
  app_pool :: pool
  app_faults :: fault_plan
  app_gacha :: GachaService

text \<open>The generated handler of a method, by its name in the service definition.\<close>

definition user_handlers :: "'g app \<Rightarrow> string \<Rightarrow> 'g app_world HandlerFunc" where
  "user_handlers a m =
     (let e = app_encoding a in
      if m = ''Register''
      then rpc_handler (unmarshal_RegisterRequest e) (call_Register (app_faults a)) (marshal_RegisterResponse e)
      else if m = ''Login''
      then rpc_handler (unmarshal_LoginRequest e) (call_Login (app_faults a)) (marshal_LoginResponse e)
      else rpc_handler (unmarshal_LogoutRequest e) call_Logout (marshal_LogoutResponse e))"

definition gacha_handlers :: "'g app \<Rightarrow> string \<Rightarrow> 'g app_world HandlerFunc" where
  "gacha_handlers a m =
     rpc_handler (unmarshal_DrawRequest (app_encoding a))
       (call_Draw (app_gacha a) (app_rand a) (app_pool a) (app_faults a)) (marshal_DrawResponse (app_encoding a))"

section \<open>main\<close>

text \<open>\<open>RegisterUserService\<close>, then \<open>RegisterGachaService\<close>, as generated from the service definitions.\<close>

definition user_service_template :: serviceTemplateData where
  "user_service_template = gen_service (pkg_map [gacha_proto, user_proto]) (pf_pkg user_proto) (hd (pf_services user_proto))"

definition gacha_service_template :: serviceTemplateData where
  "gacha_service_template = gen_service (pkg_map [gacha_proto, user_proto]) (pf_pkg gacha_proto) (hd (pf_services gacha_proto))"

definition main_router :: "'g app \<Rightarrow> 'g app_world HandlerFunc Router" where
  "main_router a =
     RegisterService gacha_service_template (gacha_handlers a)
       (RegisterService user_service_template (user_handlers a) New)"

definition main_instance :: "Config \<Rightarrow> string" where
  "main_instance cfg = ServiceName cfg @ '':'' @ show_int (sint (Port cfg))"

definition main_gacha :: "Config \<Rightarrow> string \<Rightarrow> GachaService" where
  "main_gacha cfg host = SetInstance (main_instance cfg) (NewGachaService host)"

definition main_client :: "Config \<Rightarrow> Client" where
  "main_client cfg = NewClient (RegistryAddr cfg) (Port cfg) (ServiceName cfg) (HeartbeatInterval cfg)
     (Config.HeartbeatMaxFail cfg) (ReconnectBackoff cfg) (ReconnectMaxBackoff cfg)"

definition main_server :: "Config \<Rightarrow> 'g app \<Rightarrow> 'g app_world HandlerFunc Server" where
  "main_server cfg a = NewServer (ListenAddr cfg) (main_router a) (main_client cfg)"

section \<open>Routes of the server\<close>

lemma templates:
  "TServiceName user_service_template = ''UserService''"
  "map (\<lambda>m. (RpcName m, RouterKey m)) (TMethods user_service_template) =
     [(''Register'', ''register''), (''Login'', ''login''), (''Logout'', ''logout'')]"
  "TServiceName gacha_service_template = ''GachaService''"
  "map (\<lambda>m. (RpcName m, RouterKey m)) (TMethods gacha_service_template) = [(''Draw'', ''draw'')]"
  by code_simp+

lemma RegisterService_pairs:
  "RegisterService t svc r =
     register_all (map (\<lambda>(n, k). (TServiceName t, k, svc n)) (map (\<lambda>m. (RpcName m, RouterKey m)) (TMethods t))) r"
  by (simp add: RegisterService_def o_def)

definition main_entries :: "'g app \<Rightarrow> (string \<times> string \<times> 'g app_world HandlerFunc) list" where
  "main_entries a =
     [(''UserService'', ''register'', user_handlers a ''Register''), (''UserService'', ''login'', user_handlers a ''Login''),
      (''UserService'', ''logout'', user_handlers a ''Logout''), (''GachaService'', ''draw'', gacha_handlers a ''Draw'')]"

lemma main_router_entries: "main_router a = register_all (main_entries a) New"
  unfolding main_router_def RegisterService_pairs templates main_entries_def by simp

lemma map_of_rev_distinct: "distinct (map fst xs) \<Longrightarrow> map_of (rev xs) = map_of xs"
  by (subst map_of_inject_set) (simp_all add: rev_map [symmetric])

lemma main_routes:
  "Route (main_router a) s m = map_of (map (\<lambda>(s, m, h). ((s, m), h)) (main_entries a)) (s, m)"
proof -
  have valid: "\<forall>(s, m, h)\<in>set (main_entries a). dot_free s \<and> dot_free m"
    by (simp add: main_entries_def dot_free_def)
  have "distinct (map fst (map (\<lambda>(s, m, h). ((s, m), h)) (main_entries a)))"
    by (simp add: main_entries_def)
  with rt.find_add_all [OF valid, of New s m] show ?thesis
    by (simp add: main_router_entries register_all_add_all rt.find_empty rt.entries_def map_of_rev_distinct split: option.splits)
qed

section \<open>No handler panics\<close>

lemma rpc_handler_no_panic:
  assumes "\<And>req. fst (method req w) \<noteq> None"
  shows "\<exists>resp. handler_response r (fst (rpc_handler unm method mar p w)) = Some resp"
proof (cases "unm p")
  case (Inl e)
  then show ?thesis by (simp add: rpc_handler_def)
next
  case (Inr req)
  obtain out w' where "method req w = (Some out, w')" using assms [of req] by (cases "method req w") auto
  with Inr show ?thesis by (auto simp: rpc_handler_def split: sum.splits)
qed

lemma Draw_no_panic:
  assumes "rand_ok rnd" "full_pool ops"
  shows "fst (Draw s rnd (build_pool ops) faults req g d) \<noteq> DrawPanic"
  using draw_loop_draws [OF assms, of "DrawUserId req" faults 0 "unat (Count req)" "[]" g d]
  by (auto simp: Draw_def Let_def)

definition app_ok :: "'g app \<Rightarrow> operator list \<Rightarrow> bool" where
  "app_ok a ops \<longleftrightarrow> rand_ok (app_rand a) \<and> full_pool ops \<and> app_pool a = build_pool ops"

lemma main_handlers_reply:
  assumes "app_ok a ops" "Route (main_router a) s m = Some h"
  shows "\<exists>resp. handler_response r (fst (h p w)) = Some resp"
proof -
  have no_panic: "fst (call_Register f req w) \<noteq> None" "fst (call_Login f req' w) \<noteq> None"
      "fst (call_Logout req'' w) \<noteq> None" for f req req' req''
    by (simp_all add: call_Register_def call_Login_def call_Logout_def split: prod.splits)
  have draw: "fst (call_Draw (app_gacha a) (app_rand a) (app_pool a) (app_faults a) req w) \<noteq> None" for req
    using assms(1) Draw_no_panic [of "app_rand a" ops "app_gacha a" "\<lambda>i. app_faults a (db_clock w + i)" req
        "world_rand w" "world_db w"]
    by (auto simp: app_ok_def call_Draw_def split: prod.splits draw_result.splits)
  have "h \<in> {user_handlers a ''Register'', user_handlers a ''Login'', user_handlers a ''Logout'', gacha_handlers a ''Draw''}"
    using assms(2) unfolding main_routes by (auto simp: main_entries_def split: if_splits)
  then show ?thesis
    by (auto simp: user_handlers_def gacha_handlers_def Let_def simp del: not_None_eq
        intro!: rpc_handler_no_panic no_panic draw)
qed

section \<open>Every response can be marshalled\<close>

text \<open>
  What is documented of the protobuf library. Strings of a message are UTF-8: unmarshalling checks it, and
  a message whose strings are UTF-8 can be marshalled, while others are refused. Errors have texts in
  UTF-8.
\<close>

definition utf8_errors :: "('a \<Rightarrow> string + 'b) \<Rightarrow> bool" where
  "utf8_errors f \<longleftrightarrow> (\<forall>x e. f x = Inl e \<longrightarrow> valid_utf8 e)"

definition utf8_response :: "RpcResponse \<Rightarrow> bool" where
  "utf8_response resp \<longleftrightarrow> valid_utf8 (RespRequestId resp) \<and>
     (case RespError resp of None \<Rightarrow> True | Some e \<Rightarrow> valid_utf8 (Error.Message e))"

definition rpc_pb_ok :: "rpc_pb \<Rightarrow> bool" where
  "rpc_pb_ok pb \<longleftrightarrow> utf8_errors (unmarshal_request pb) \<and>
     (\<forall>d req. unmarshal_request pb d = Inr req \<longrightarrow>
        valid_utf8 (RequestId req) \<and> valid_utf8 (Service req) \<and> valid_utf8 (Method req)) \<and>
     (\<forall>resp. utf8_response resp \<longrightarrow> (\<exists>b. marshal_response pb resp = Inr b))"

definition app_pb_ok :: "app_pb \<Rightarrow> bool" where
  "app_pb_ok e \<longleftrightarrow>
     utf8_errors (unmarshal_RegisterRequest e) \<and> utf8_errors (marshal_RegisterResponse e) \<and>
     utf8_errors (unmarshal_LoginRequest e) \<and> utf8_errors (marshal_LoginResponse e) \<and>
     utf8_errors (unmarshal_LogoutRequest e) \<and> utf8_errors (marshal_LogoutResponse e) \<and>
     utf8_errors (unmarshal_DrawRequest e) \<and> utf8_errors (marshal_DrawResponse e)"

lemma utf8_show_int: "valid_utf8 (show_int i)"
proof (rule valid_utf8_ascii)
  have "list_all (\<lambda>c. code c < 0x80) (show_nat n)" for n
    using show_nat_digits [of n] by (auto simp: list_all_iff is_digit_def)
  then show "list_all (\<lambda>c. code c < 0x80) (show_int i)" by (simp add: show_int_def)
qed

lemma utf8_count_error_text: "valid_utf8 count_error_text"
  unfolding valid_utf8_iff
proof (intro exI conjI)
  let ?runes = "[25277, 21345, 25968, 37327, 38656, 22312, 32, 49, 45, 49, 48, 32, 20043, 38388, 65292, 25910, 21040, 32]"
  show "list_all is_rune ?runes" by (simp add: is_rune_def)
  show "count_error_text = concat (map AppendRune ?runes)"
    by (simp add: count_error_text_def AppendRune_def is_rune_def encode_valid_def char_of_def bit_0 drop_bit_eq_div)
qed

lemma rpc_handler_utf8:
  assumes "utf8_errors unm" "utf8_errors mar" "\<And>req t. fst (method req w) = Some (Inl t) \<Longrightarrow> valid_utf8 t"
    and "fst (rpc_handler unm method mar p w) = Fail e"
  shows "valid_utf8 e"
proof (cases "unm p")
  case (Inl t)
  with assms(1,4) show ?thesis by (auto simp: rpc_handler_def utf8_errors_def)
next
  case (Inr req)
  obtain res w' where res: "method req w = (res, w')" by fastforce
  with assms(3) [of req] have err: "res = Some (Inl t) \<Longrightarrow> valid_utf8 t" for t by simp
  from assms(2) have mar: "mar resp = Inl t \<Longrightarrow> valid_utf8 t" for resp t by (auto simp: utf8_errors_def)
  from Inr res assms(4) err mar show ?thesis
    by (auto simp: rpc_handler_def split: option.splits sum.splits)
qed

lemma main_handlers_utf8:
  assumes "app_pb_ok (app_encoding a)" "Route (main_router a) s m = Some h" "fst (h p w) = Fail e"
  shows "valid_utf8 e"
proof -
  have users: "fst (call_Register f req w) \<noteq> Some (Inl t)" "fst (call_Login f req' w) \<noteq> Some (Inl t)"
      "fst (call_Logout req'' w) \<noteq> Some (Inl t)" for f req req' req'' t
    by (simp_all add: call_Register_def call_Login_def call_Logout_def split: prod.splits)
  have draw: "valid_utf8 t" if "fst (call_Draw g rnd pool f req w) = Some (Inl t)" for g rnd pool f req t
    using that valid_utf8_append [OF utf8_count_error_text utf8_show_int]
    by (auto simp: call_Draw_def Draw_def Let_def split: prod.splits draw_result.splits if_splits option.splits)
  have "h \<in> {user_handlers a ''Register'', user_handlers a ''Login'', user_handlers a ''Logout'', gacha_handlers a ''Draw''}"
    using assms(2) unfolding main_routes by (auto simp: main_entries_def split: if_splits)
  then consider "h = user_handlers a ''Register''" | "h = user_handlers a ''Login''" | "h = user_handlers a ''Logout''"
    | "h = gacha_handlers a ''Draw''" by blast
  then show ?thesis
    using assms(1,3) users draw
    by cases (auto simp: user_handlers_def gacha_handlers_def app_pb_ok_def Let_def elim!: rpc_handler_utf8 [rotated 3])
qed

lemma dispatch_utf8:
  assumes "rpc_pb_ok pb" "dispatch pb rt d = Inl resp"
  shows "utf8_response resp"
proof (cases "unmarshal_request pb d")
  case (Inl e)
  then have "valid_utf8 e" using assms(1) by (auto simp: rpc_pb_ok_def utf8_errors_def)
  then have "valid_utf8 (''invalid request: '' @ e)" by (rule valid_utf8_append [OF valid_utf8_ascii, rotated]) simp
  with Inl assms(2) show ?thesis
    by (auto simp: dispatch_def error_response_def utf8_response_def valid_utf8_ascii)
next
  case (Inr req)
  then have req: "valid_utf8 (RequestId req)" "valid_utf8 (Service req)" "valid_utf8 (Method req)"
    using assms(1) by (auto simp: rpc_pb_ok_def)
  have "valid_utf8 (''method not found: '' @ Service req @ ''.'' @ Method req)"
    by (intro valid_utf8_append req; rule valid_utf8_ascii; simp)
  with Inr assms(2) req show ?thesis
    by (auto simp: dispatch_def error_response_def utf8_response_def split: option.splits)
qed

lemma main_total_replies:
  assumes "app_ok a ops" "app_pb_ok (app_encoding a)" "rpc_pb_ok pb"
  shows "total_replies pb (main_router a)"
  unfolding total_replies_def
proof (intro conjI allI impI)
  fix d resp assume "dispatch pb (main_router a) d = Inl resp"
  from dispatch_utf8 [OF assms(3) this] assms(3) show "\<exists>b. marshal_response pb resp = Inr b" by (auto simp: rpc_pb_ok_def)
next
  fix d req h w assume d: "dispatch pb (main_router a) d = Inr (req, h)"
  then have h: "Route (main_router a) (Service req) (Method req) = Some h" "unmarshal_request pb d = Inr req"
    by (auto simp: dispatch_def split: sum.splits option.splits)
  obtain resp where resp: "handler_response req (fst (h (Payload req) w)) = Some resp"
    using main_handlers_reply [OF assms(1) h(1)] by blast
  moreover have "valid_utf8 (RequestId req)" using assms(3) h(2) by (auto simp: rpc_pb_ok_def)
  with resp main_handlers_utf8 [OF assms(2) h(1)] have "utf8_response resp"
    by (auto simp: utf8_response_def elim!: handler_response.elims)
  with assms(3) have "\<exists>b. marshal_response pb resp = Inr b" by (auto simp: rpc_pb_ok_def)
  ultimately show "\<exists>resp b. handler_response req (fst (h (Payload req) w)) = Some resp \<and> marshal_response pb resp = Inr b"
    by blast
qed

section \<open>The repository's definitions\<close>

text \<open>C13. Client and server of the repository fit together: what the Go generator makes of the files below
  \<open>proto\<close> is the registration code \<open>main\<close> calls, and the pairs of service and method for which the
  server has a handler are exactly those the Java interfaces generated from \<open>proto/app\<close> call.\<close>

theorem repository_routes:
  "gen_services (genrpc_parse proto_walk) = [gacha_service_template, user_service_template] \<and>
   {(s, m). Route (main_router a) s m \<noteq> None} = set (java_routes (java_parse app_walk))"
proof
  have files: "gen_files [gacha_proto, user_proto] = [gacha_proto, user_proto]"
    by (simp add: gen_files_def gacha_proto_def user_proto_def)
  obtain x y where "pf_services gacha_proto = [x]" "pf_services user_proto = [y]"
    by (simp add: gacha_proto_def user_proto_def)
  then show "gen_services (genrpc_parse proto_walk) = [gacha_service_template, user_service_template]"
    by (simp add: repository_parse gen_services_def files gacha_service_template_def user_service_template_def)
  have "java_routes (java_parse app_walk) =
      [(''GachaService'', ''draw''), (''UserService'', ''register''), (''UserService'', ''login''), (''UserService'', ''logout'')]"
    using app_routes by (simp add: repository_parse go_routes_proto java_routes_proto)
  then show "{(s, m). Route (main_router a) s m \<noteq> None} = set (java_routes (java_parse app_walk))"
    unfolding main_routes by (auto simp: main_entries_def split: if_splits)
qed

end
