(* ===== verification/Operators.thy ===== *)
theory Operators
  imports Gacha_Service
begin

text \<open>
  The operators table that is compiled into the server, \<open>app/operators.json\<close>.

  \<open>operators_table\<close> are its entries in order, the names as Unicode characters; \<open>format_table\<close> is the layout
  of the file, one entry per line, so that \<open>operators_json\<close> is its text. The lemmas follow \<open>init\<close> on this
  text: it is parsed and decoded without an error, the pool is that of the entries, and every rarity
  from 3 to 6, which \<open>drawOne\<close> may pick, has an operator.
\<close>

section \<open>The table\<close>

definition operators_table :: "(nat list \<times> int32) list" where
  "operators_table =
    [([49, 50, 70], 2), ([67, 97, 115, 116, 108, 101, 45, 51], 1), ([67, 79, 78, 70, 69, 83, 83, 45, 52, 55], 1),
    ([70, 114, 105, 115, 116, 111, 110, 45, 51], 1), ([76, 97, 110, 99, 101, 116, 45, 50], 1),
    ([77, 105, 115, 115, 46, 67, 104, 114, 105, 115, 116, 105, 110, 101], 5), ([77, 111, 110, 51, 116, 114], 6),
    ([80, 104, 111, 110, 111, 82, 45, 48], 1), ([84, 72, 82, 77, 45, 69, 88], 1),
    ([85, 45, 79, 102, 102, 105, 99, 105, 97, 108], 1), ([87], 6), ([19975, 39031], 5), ([19977, 35282, 21021, 21326], 5),
    ([20016, 24029, 31077, 23376], 6), ([20020, 20809], 5), ([20044, 21886], 5), ([20044, 23572, 27604, 23433], 6),
    ([20044, 26377], 5), ([20061, 33394, 40575], 5), ([20113, 36857], 4), ([20122, 21494], 5), ([20167, 30333], 6),
    ([20196], 6), ([20234, 20869, 19997], 6), ([20234, 26705], 4), ([20234, 33433, 21033, 29305], 6),
    ([20241, 35871, 26031], 4), ([20271, 22612, 23612], 5), ([20282, 22812], 6), ([20294, 20070], 5), ([20313], 6),
    ([20329, 20329], 6), ([20449, 20208, 25605, 25292, 26426], 6), ([20551, 26085, 23041, 40857, 38472], 6),
    ([20608, 24433], 6), ([20811, 27931, 19997], 3), ([20843, 24161, 28023, 38083], 5), ([20908, 26102], 4),
    ([20912, 37247], 5), ([20955, 20908], 5), ([20955, 24481, 38134, 28784], 6), ([20955, 35270], 5),
    ([20975, 23572, 24076], 6), ([20975, 29791, 29747], 5), ([21021, 38634], 5), ([21050, 29611], 5),
    ([21051, 20420, 26575], 6), ([21051, 20992], 4), ([21307, 29983], 5), ([21326, 27861, 29747], 5), ([21327, 24459], 4),
    ([21345, 22827, 21345], 5), ([21345, 28037, 21033, 23433], 6), ([21345, 32519], 3), ([21345, 36798], 4),
    ([21382, 38453, 38160, 26538, 33452], 5), ([21452, 26376], 5), ([21476, 31859], 4), ([21487, 39042], 5),
    ([21490, 23572, 29305, 23572], 6), ([21490, 37117, 21326, 24503], 3), ([21495, 35282], 6),
    ([21496, 38662, 24778, 34544], 6), ([21513, 26143], 5), ([21565], 5), ([21644, 24358], 5), ([21704, 27931, 24503], 5),
    ([21704, 33922, 23045], 5), ([21709, 30707], 5), ([22025, 32500, 23572], 4), ([22235, 26376], 5),
    ([22240, 38464, 32599], 5), ([22270, 32822], 5), ([22307, 32422, 36865, 33900, 20154], 6),
    ([22307, 32838, 21021, 38634], 6), ([22320, 28789], 4), ([22362, 38647], 4), ([22467, 25289, 25176], 5),
    ([22609, 24515], 6), ([22622, 38647, 23045], 6), ([22797, 22863], 5), ([22799, 26638], 5), ([22805], 6),
    ([22810, 33821, 35199], 6), ([22812, 20992], 2), ([22812, 21322], 5), ([22812, 28895], 4), ([22812, 33722], 6),
    ([22812, 39764], 5), ([22825, 28779], 5), ([22825, 31354, 30418], 5), ([22885, 26031, 22612], 5), ([22885, 36798], 5),
    ([22958, 33433], 6), ([23068, 20161, 22270, 20122], 6), ([23068, 26031, 25552], 6), ([23376, 26376], 5), ([23377], 4),
    ([23432, 26519, 20154], 5), ([23433, 21746, 25289], 5), ([23433, 24503, 20999, 23572], 3), ([23433, 27604, 23572], 4),
    ([23433, 27905, 33673, 23068], 6), ([23433, 36187, 23572], 3), ([23476], 4), ([23506, 27264], 5),
    ([23506, 33426, 20811, 27931, 19997], 5), ([23547, 28572], 5), ([23548, 28779, 32034], 5), ([23567, 28385], 5),
    ([23665], 6), ([23830, 24515], 5), ([23919, 23784], 6), ([24033, 26519, 32773], 2), ([24038, 20048], 6),
    ([24043, 24651], 5), ([24067, 19969], 4), ([24067, 27931, 21345], 5), ([24085, 25289, 26031], 6), ([24180], 6),
    ([24189, 28789, 40104], 5), ([24322, 23458], 6), ([24337, 21531, 32773], 6), ([24341, 26143, 26840, 21050], 6),
    ([24402, 28319, 24189, 28789, 40104], 6), ([24405, 27494, 23448], 5), ([24494, 39118], 5),
    ([24503, 20811, 33832, 26031], 5), ([24525, 20908], 6), ([24594, 28526, 20955, 20908], 6), ([24778, 34544], 5),
    ([24913, 30722], 5), ([24917, 26031], 4), ([25112, 36710], 5), ([25130, 20113], 5), ([25140, 33778, 24681], 5),
    ([25215, 26342, 26684, 38647, 20234], 5), ([25240, 20809], 5), ([25240, 26720], 5), ([25289, 26222, 20848, 24503], 5),
    ([25308, 26494], 5), ([25504, 39118], 5), ([25512, 36827, 20043, 29579], 6), ([25552, 20016], 6),
    ([25670, 28193, 20154], 5), ([25705, 26681], 5), ([25783, 33521, 35843, 39321, 24072], 5), ([26001, 28857], 3),
    ([26021, 32618], 6), ([26025, 19994, 26143, 29066], 6), ([26029, 23830], 5), ([26029, 32618, 32773], 4),
    ([26031, 21345, 33922], 6), ([26032, 32422, 33021, 22825, 20351], 6), ([26089, 38706], 6), ([26126, 26898], 5),
    ([26143, 26497], 5), ([26143, 28304], 5), ([26143, 29066], 6), ([26195, 27468], 5), ([26222, 32599, 26106, 26031], 5),
    ([26263, 32034], 4), ([26286, 33853], 5), ([26292, 34892], 5), ([26292, 38632], 5), ([26376, 31166], 5),
    ([26376, 35265, 22812], 3), ([26395], 6), ([26411, 33647], 4), ([26447, 20161], 5), ([26460, 23486], 4),
    ([26460, 26519], 2), ([26480, 20811], 4), ([26480, 35199, 21345], 4), ([26494, 26524], 4), ([26494, 26704], 5),
    ([26497, 20809], 5), ([26497, 22659], 5), ([26519], 6), ([26575, 21913], 5), ([26684, 21171, 20811, 26031], 5),
    ([26684, 25289, 23612], 5), ([26684, 38647, 20234], 4), ([26691, 37329, 23064], 4), ([26705, 33882], 5), ([26757], 4),
    ([26757, 23572], 5), ([26771, 20848], 3), ([26840, 21050], 6), ([26862, 34490], 6), ([26862, 35199], 5),
    ([27088, 29733], 5), ([27468, 34174, 33922, 23045], 6), ([27490, 39042], 6), ([27491, 20041, 39569, 22763, 21495], 1),
    ([27515, 33426], 6), ([27700, 26376], 6), ([27700, 28783, 24515], 5), ([27873, 26222, 21345], 3), ([27873, 27873], 4),
    ([27874, 21340], 5), ([27874, 30331, 21487], 4), ([27877, 23721], 6),
    ([27888, 25289, 22823, 38470, 35843, 26597, 22242], 1), ([27915, 28784], 5), ([27931, 27931], 5), ([27969, 26126], 6),
    ([27969, 26143], 4), ([27978, 24515, 26031, 21345, 33922], 6), ([28023, 27819], 5), ([28023, 33922], 5),
    ([28023, 38675], 5), ([28068, 28779, 26480, 35199, 21345], 6), ([28140, 32701, 36203, 40664], 6), ([28145, 24033], 5),
    ([28145, 24459], 5), ([28145, 28023, 33394], 4), ([28145, 38747], 4), ([28165, 27969], 4), ([28165, 36947, 22827], 4),
    ([28193, 26725], 5), ([28201, 31859], 5), ([28201, 33922], 6), ([28335, 20809, 26143, 28304], 6), ([28548, 38378], 6),
    ([28655, 23576, 33433, 33993], 5), ([28779, 21736], 5), ([28779, 31070], 5), ([28779, 40857, 83, 40657, 35282], 5),
    ([28784, 21897], 5), ([28784, 27627], 5), ([28784, 28908], 6), ([28789, 30693], 6), ([28814, 23458], 5),
    ([28814, 29076], 3), ([28814, 29425, 28814, 29076], 5), ([28872, 22799], 5), ([28891, 29004], 6), ([28976, 23614], 6),
    ([28976, 24433, 33479, 33609], 6), ([29004], 6), ([29076, 27849], 5), ([29159, 30707], 5), ([29233, 20029, 19997], 5),
    ([29305, 20811, 35834], 5), ([29305, 31859, 31859], 5), ([29422, 34638], 5), ([29454, 34562], 4),
    ([29595, 24681, 32435], 6), ([29595, 38706, 35199, 23572], 6), ([29611, 20848, 33678], 3), ([29611, 25289], 5),
    ([29747, 29701, 35799, 24576, 38597], 6), ([29748, 26611], 6), ([29781, 20809], 6), ([29808, 30416], 5),
    ([30005, 24359], 6), ([30333, 37329], 5), ([30333, 38081], 6), ([30333, 38634], 4), ([30333, 38754, 40494], 5),
    ([30334, 28860, 22025, 32500, 23572], 6), ([30495, 29702], 5), ([30495, 35328], 6), ([30697], 5), ([30707, 26825], 5),
    ([30707, 33521], 4), ([30782], 4), ([31056, 22825, 23546, 33509, 40614], 5), ([31232, 38899], 5), ([31354], 5),
    ([31354, 24358], 6), ([31354, 26500], 5), ([31354, 29190], 3), ([31859, 26684, 40065], 3), ([32110, 38632], 5),
    ([32418], 5), ([32418, 20113], 4), ([32418, 35910], 4), ([32418, 38588], 5),
    ([32431, 28908, 33406, 38597, 27861, 25289], 6), ([32494, 33391], 5), ([32500, 20160, 25140, 23572], 6),
    ([32500, 23068, 183, 32500, 22810, 21033, 20122], 6), ([32500, 33659], 4), ([32516, 40664, 24503, 20811, 33832, 26031], 6),
    ([32519, 32519], 6), ([32544, 20024], 4), ([32554, 23572, 36187, 24605], 6), ([32599, 23486], 5),
    ([32599, 23567, 40657], 4), ([32599, 27604, 33736, 22612], 4), ([32701, 27611, 31508], 5), ([32718, 32701], 3),
    ([32768, 39569, 22763, 20020, 20809], 6), ([32769, 40100], 6), ([32822, 25289], 5), ([32838, 38899], 5),
    ([33021, 22825, 20351], 6), ([33267, 31616], 5), ([33406, 19997, 40667, 23572], 4), ([33406, 20029, 22958], 6),
    ([33406, 25289], 6), ([33406, 38597, 27861, 25289], 6), ([33433, 20848, 21345], 5), ([33433, 33993], 3), ([33452], 3),
    ([33459, 27712], 4), ([33479, 33609], 5), ([33485, 33492], 5), ([33487, 33487, 27931], 4), ([33509, 21494, 30566], 5),
    ([33510, 33406], 5), ([33618, 33436, 25289, 26222, 20848, 24503], 6), ([33678, 33609], 5),
    ([33707, 26031, 25552, 39532], 6), ([33713, 20234], 6), ([33713, 24681, 21704, 29305], 5), ([33713, 27431, 26031], 5),
    ([33778, 20122, 26757, 22612], 6), ([33778, 33713], 5), ([33922, 27604], 5), ([34013, 27602], 5),
    ([34174, 32554, 23433], 6), ([34180, 32511], 5), ([34183, 34183, 23433, 23068], 6), ([34432, 28165], 5),
    ([34503, 23648, 31665], 4), ([34588, 33683], 5), ([34588, 34593], 5), ([34892, 31672], 5), ([34913, 27801], 5),
    ([35009, 24230], 5), ([35088, 26524], 4), ([35265, 34892, 32773], 5), ([35282, 23792], 4), ([35759, 20351], 4),
    ([35799, 24576, 38597], 5), ([35834, 23041, 23572], 5), ([35843, 39321, 24072], 4), ([35868, 22270], 5),
    ([35910, 33495], 4), ([36125, 23068], 5), ([36125, 27931, 20869], 6), ([36158, 32500], 5), ([36196, 20908], 5),
    ([36196, 20995, 26126, 38660, 38472], 6), ([36203, 24503, 38647], 6), ([36203, 25289, 26684], 6), ([36203, 40664], 5),
    ([36291, 36291], 4), ([36710, 23572, 23612], 5), ([36798, 26684, 36798], 5), ([36828, 23665], 4), ([36828, 29273], 6),
    ([36855, 36845, 39321], 6), ([36865, 33900, 20154], 5), ([36923, 21508, 26031], 6), ([36965], 6), ([37202, 31070], 6),
    ([37240, 31958], 4), ([37325, 23731], 6), ([37326, 39683], 5), ([38076, 38085], 5), ([38083, 20848], 6),
    ([38085, 36381], 4), ([38094, 38083], 5), ([38134, 28784], 6), ([38136, 38081], 5), ([38159], 6), ([38177, 20154], 5),
    ([38177, 20848], 5), ([38378, 20987], 5), ([38378, 28789], 6), ([38463], 6), ([38463, 20848, 23068], 5),
    ([38463, 26031, 21345, 32438], 6), ([38463, 28040], 4), ([38463, 31859, 23045], 5), ([38463, 32599, 29595], 5),
    ([38472], 6), ([38504, 26143], 5), ([38544, 24503, 26469, 24076], 6), ([38544, 29616], 5), ([38634, 29454], 5),
    ([38634, 32466], 5), ([38634, 38601], 5), ([38647, 34503], 5), ([38669, 23572, 28023, 38597], 6), ([38684, 21326], 5),
    ([38684, 21494], 4), ([38706, 25176], 4), ([38738, 26547], 5), ([38829, 20995], 5), ([39118, 20024], 5),
    ([39118, 31515], 6), ([39118, 32110], 5), ([39135, 38081, 20861], 5), ([39321, 33609], 3), ([39563, 39118], 4),
    ([39764, 29579], 6), ([40511, 38634], 6), ([40594, 40607, 82, 22812, 20992], 6), ([40614, 21746, 20262], 6), ([40653], 6),
    ([40657], 6), ([40657, 35282], 2), ([40657, 38190], 6), ([40784, 23572, 26597, 20811], 5), ([40857, 33292, 20848], 5),
    ([20975, 23572, 24076, 183, 24605, 34913, 25176], 6), ([21487, 38706, 24076, 23572], 6), ([32500, 20234], 6),
    ([35010, 21709], 5), ([71, 65, 76, 76, 85, 83, 178], 1)]"

definition operators :: "operator list" where
  "operators = map (\<lambda>(name, rarity). \<lparr>Name = concat (map AppendRune name), Rarity = rarity\<rparr>) operators_table"

section \<open>The layout of the file\<close>

definition operator_line :: "operator \<Rightarrow> string" where
  "operator_line op =
     ''{ '' @ quote ''name'' @ '': '' @ quote (Name op) @ '', '' @ quote ''rarity'' @ '': '' @ show_int (sint (Rarity op)) @ '' }''"

fun operator_lines :: "operator list \<Rightarrow> string" where
  "operator_lines [] = []"
| "operator_lines (op # ops) =
     ''  '' @ operator_line op @ (if ops = [] then [] else CHR '','' # CHR 0x0A # operator_lines ops)"

definition format_table :: "operator list \<Rightarrow> string" where
  "format_table ops = ''['' @ [CHR 0x0A] @ operator_lines ops @ [CHR 0x0A] @ '']'' @ [CHR 0x0A]"

definition operators_json :: bytes where
  "operators_json = string_bytes (format_table operators)"

section \<open>The text is parsed\<close>

lemma skip_ws_simps [simp]:
  "skip_ws (CHR '' '' # s) = skip_ws s" "skip_ws (CHR 0x0A # s) = skip_ws s" "skip_ws [] = []"
  by (simp_all add: skip_ws_def is_ws_def)

lemma show_int_start:
  obtains c cs where "show_int i = c # cs" "c = CHR ''-'' \<or> is_digit c" "\<not> is_ws c"
proof -
  obtain c cs where c: "show_int i = c # cs" "c = CHR ''-'' \<or> is_digit c"
    using wf_number_show_int by (rule wf_number_start)
  moreover from c(2) have "\<not> is_ws c" by (auto simp: is_ws_def is_digit_def)
  ultimately show ?thesis by (rule that)
qed

lemma parse_show_int:
  "delimited rest \<Longrightarrow> parse_value d (skip_ws (show_int i @ rest)) = Some (JNumber (show_int i), rest)"
  using parse_format(1) [of d "JNumber (show_int i)" rest] wf_number_show_int [of i]
  by (rule_tac i = i in show_int_start) (simp add: skip_ws_nonws)

lemma parse_quoted: "valid_utf8 s \<Longrightarrow> parse_value d (CHR 0x22 # quote_body s @ CHR 0x22 # rest) = Some (JString s, rest)"
  by (simp add: parse_value.simps lex_quote)

lemma parse_operator_line:
  assumes "valid_utf8 (Name op)" "d < max_depth"
  shows "parse_value d (operator_line op @ rest) = Some (operator_json op, rest)"
proof -
  have names: "lex_string (quote_body ''name'' @ CHR 0x22 # r) = Some (''name'', r)"
    "lex_string (quote_body ''rarity'' @ CHR 0x22 # r) = Some (''rarity'', r)" for r
    by (rule lex_quote, rule valid_utf8_ascii, simp)+
  have num: "parse_value (Suc d) (skip_ws (show_int (sint (Rarity op)) @ '' }'' @ rest)) =
      Some (JNumber (show_int (sint (Rarity op))), '' }'' @ rest)"
    by (rule parse_show_int) (simp add: delimited_def is_ws_def)
  have rarity: "parse_members (Suc d) (CHR 0x22 # quote_body ''rarity'' @ CHR 0x22 # '': '' @ show_int (sint (Rarity op)) @ '' }'' @ rest) =
      Some ([(''rarity'', JNumber (show_int (sint (Rarity op))))], rest)"
    using num by (subst parse_members.simps) (simp add: names skip_ws_nonws)
  have "parse_members (Suc d) (CHR 0x22 # quote_body ''name'' @ CHR 0x22 # '': '' @ CHR 0x22 # quote_body (Name op) @ CHR 0x22 #
      '', '' @ CHR 0x22 # quote_body ''rarity'' @ CHR 0x22 # '': '' @ show_int (sint (Rarity op)) @ '' }'' @ rest) =
      Some ([(''name'', JString (Name op)), (''rarity'', JNumber (show_int (sint (Rarity op))))], rest)"
    using rarity by (subst parse_members.simps) (simp add: names skip_ws_nonws parse_quoted assms(1))
  with assms(2) show ?thesis
    by (simp add: operator_line_def operator_json_def quote_def parse_value.simps [of d] skip_ws_nonws)
qed

lemma operator_lines_start: "ops \<noteq> [] \<Longrightarrow> \<exists>t. skip_ws (operator_lines ops @ s) = CHR ''{'' # t"
  by (cases ops) (simp_all add: operator_line_def skip_ws_nonws is_ws_def)

lemma parse_operator_lines:
  assumes "\<forall>op\<in>set ops. valid_utf8 (Name op)" "ops \<noteq> []" "d < max_depth"
  shows "parse_elements d (skip_ws (operator_lines ops @ CHR 0x0A # CHR '']'' # rest)) = Some (map operator_json ops, rest)"
  using assms(1,2)
proof (induction ops)
  case (Cons op ops)
  let ?s = "CHR 0x0A # CHR '']'' # rest"
  let ?r = "(if ops = [] then [] else CHR '','' # CHR 0x0A # operator_lines ops) @ ?s"
  have line: "skip_ws (operator_lines (op # ops) @ ?s) = operator_line op @ ?r"
    by (simp add: operator_line_def skip_ws_nonws is_ws_def)
  have v: "parse_value d (operator_line op @ ?r) = Some (operator_json op, ?r)"
    using Cons.prems assms(3) by (simp add: parse_operator_line)
  show ?case
  proof (cases "ops = []")
    case True
    with v show ?thesis
      unfolding line by (subst parse_elements.simps) (simp add: skip_ws_nonws)
  next
    case False
    with Cons v show ?thesis
      unfolding line by (subst parse_elements.simps) (simp add: skip_ws_nonws)
  qed
qed simp

lemma parse_format_table:
  assumes "\<forall>op\<in>set ops. valid_utf8 (Name op)" "ops \<noteq> []"
  shows "parse_json (string_bytes (format_table ops)) = Some (JArray (map operator_json ops))"
proof -
  let ?s = "operator_lines ops @ CHR 0x0A # CHR '']'' # [CHR 0x0A]"
  obtain t where t: "skip_ws ?s = CHR ''{'' # t" using operator_lines_start [OF assms(2)] by blast
  have "parse_elements 1 (skip_ws ?s) = Some (map operator_json ops, [CHR 0x0A])"
    using assms by (rule parse_operator_lines) (simp add: max_depth_def)
  with t have "parse_value 0 (CHR ''['' # CHR 0x0A # ?s) = Some (JArray (map operator_json ops), [CHR 0x0A])"
    by (subst parse_value.simps) (simp add: max_depth_def)
  then show ?thesis
    by (simp add: parse_json_def parse_text_def format_table_def skip_ws_nonws is_ws_def)
qed

section \<open>init on the table of the repository\<close>

lemma operators_table_runes: "list_all (\<lambda>x. list_all is_rune (fst x)) operators_table"
proof -
  have r: "is_rune (numeral n)" if "numeral n < (0xD800 :: nat)" for n
    using that by (simp add: is_rune_def)
  show ?thesis
    unfolding operators_table_def by (simp only: list.pred_inject fst_conv) (intro conjI TrueI r; simp)
qed

lemma operators_utf8: "\<forall>op\<in>set operators. valid_utf8 (Name op)"
  using operators_table_runes unfolding operators_def valid_utf8_iff list_all_iff [of _ operators_table] by fastforce

lemma operators_rarities:
  "list_ex (\<lambda>x. snd x = 3) operators_table" "list_ex (\<lambda>x. snd x = 4) operators_table"
  "list_ex (\<lambda>x. snd x = 5) operators_table" "list_ex (\<lambda>x. snd x = 6) operators_table"
  unfolding operators_table_def by (simp_all only: list_ex_Nil_iff list_ex_Cons_iff snd_conv simp_thms)

lemma operators_full: "full_pool operators"
proof -
  have "\<exists>op\<in>set operators. Rarity op = r" if "list_ex (\<lambda>x. snd x = r) operators_table" for r
    using that by (force simp: operators_def list_ex_iff)
  with operators_rarities show ?thesis unfolding full_pool_def by blast
qed

lemma init_operators: "init_pool operators_json = Some (build_pool operators)"
proof -
  have "operators \<noteq> []" using operators_full by (auto simp: full_pool_def)
  with operators_utf8 show ?thesis
    by (simp add: init_pool_def operators_json_def parse_format_table decode_operators_json del: decode_operators.simps)
qed

end
