(* ===== verification/Log.thy ===== *)
theory Log
  imports Utf8
begin

text \<open>
  Logging, \<open>internal/log/log.go\<close>: \<open>CompactHandler\<close>, the handler behind every logger of the server, with
  what \<open>log/slog\<close> does around it (levels and their names, \<open>With\<close>, dropping disabled records).

  \<^item> A writer is a state with a function that takes one write; handlers derived from each other share it.
  \<^item> An attribute's value prints as its text; \<open>AnyValue\<close> is the text \<open>fmt\<close> gives for a value that is not
    a string, an integer or a truth value (an error, a duration).
  \<^item> \<open>%-5s\<close> and \<open>%-28s\<close> pad on the right, counting characters.

  The lemmas say what a line consists of: one write per record, the attributes in the order in which they
  were attached, the columns where the parts begin.
\<close>

section \<open>Records\<close>

datatype slog_value = StringValue string | Int64Value int64 | BoolValue bool | AnyValue string

fun Value_String :: "slog_value \<Rightarrow> string" where
  "Value_String (StringValue s) = s"
| "Value_String (Int64Value n) = show_int (sint n)"
| "Value_String (BoolValue b) = (if b then ''true'' else ''false'')"
| "Value_String (AnyValue s) = s"

record Attr =
  Key :: string
  Value :: slog_value

record slog_record =
  Hour :: nat
  Minute :: nat
  Sec :: nat
  Level :: int
  Message :: string
  RAttrs :: "Attr list"

definition LevelDebug :: int where
  "LevelDebug = -4"

definition level_offset :: "string \<Rightarrow> int \<Rightarrow> string" where
  "level_offset base v = (if v = 0 then base else base @ (if v < 0 then show_int v else CHR ''+'' # show_int v))"

definition Level_String :: "int \<Rightarrow> string" where
  "Level_String l =
     (if l < 0 then level_offset ''DEBUG'' (l + 4) else if l < 4 then level_offset ''INFO'' l
      else if l < 8 then level_offset ''WARN'' (l - 4) else level_offset ''ERROR'' (l - 8))"

section \<open>Formatting\<close>

definition two_digits :: "nat \<Rightarrow> string" where
  "two_digits n = [digit_char (n div 10), digit_char (n mod 10)]"

definition format_time :: "slog_record \<Rightarrow> string" where
  "format_time r = two_digits (Hour r) @ '':'' @ two_digits (Minute r) @ '':'' @ two_digits (Sec r)"

definition pad_right :: "nat \<Rightarrow> string \<Rightarrow> string" where
  "pad_right n s = s @ replicate (n - RuneCountInString s) CHR '' ''"

definition format_attr :: "Attr \<Rightarrow> string" where
  "format_attr a = '' '' @ Key a @ ''='' @ Value_String (Value a)"

definition format_head :: "slog_record \<Rightarrow> string" where
  "format_head r = format_time r @ '' '' @ pad_right 5 (Level_String (Level r)) @ '' '' @ pad_right 28 (Message r)"

section \<open>CompactHandler\<close>

record CompactHandler =
  h_attrs :: "Attr list"

definition NewCompactHandler :: CompactHandler where
  "NewCompactHandler = \<lparr>h_attrs = []\<rparr>"

definition Enabled :: "CompactHandler \<Rightarrow> int \<Rightarrow> bool" where
  "Enabled h level \<longleftrightarrow> level \<ge> LevelDebug"

definition Handle :: "(string \<Rightarrow> 'w \<Rightarrow> 'e option \<times> 'w) \<Rightarrow> CompactHandler \<Rightarrow> slog_record \<Rightarrow> 'w \<Rightarrow> 'e option \<times> 'w" where
  "Handle write h r w =
     (let buf = format_head r;
          buf1 = foldl (\<lambda>b a. b @ format_attr a) buf (h_attrs h);
          buf2 = foldl (\<lambda>b a. b @ format_attr a) buf1 (RAttrs r)
      in write (buf2 @ [CHR 0x0A]) w)"

definition WithAttrs :: "CompactHandler \<Rightarrow> Attr list \<Rightarrow> CompactHandler" where
  "WithAttrs h attrs = \<lparr>h_attrs = h_attrs h @ attrs\<rparr>"

definition WithGroup :: "CompactHandler \<Rightarrow> string \<Rightarrow> CompactHandler" where
  "WithGroup h name = h"

text \<open>\<open>Logger.With\<close>, \<open>New\<close> with the default logger's handler, and a logging call, which drops the error.\<close>

definition Logger_With :: "CompactHandler \<Rightarrow> Attr list \<Rightarrow> CompactHandler" where
  "Logger_With h attrs = (if attrs = [] then h else WithAttrs h attrs)"

definition New_Logger :: "CompactHandler \<Rightarrow> string \<Rightarrow> CompactHandler" where
  "New_Logger dflt component = Logger_With dflt [\<lparr>Key = ''component'', Value = StringValue component\<rparr>]"

definition Logger_log :: "(string \<Rightarrow> 'w \<Rightarrow> 'e option \<times> 'w) \<Rightarrow> CompactHandler \<Rightarrow> slog_record \<Rightarrow> 'w \<Rightarrow> 'w" where
  "Logger_log write h r w = (if Enabled h (Level r) then snd (Handle write h r w) else w)"

section \<open>The text of a line\<close>

lemma foldl_append_concat: "foldl (\<lambda>b a. b @ f a) b as = b @ concat (map f as)"
  by (induction as arbitrary: b) auto

lemma Handle_line: "Handle write h r w = write (format_head r @ concat (map format_attr (h_attrs h @ RAttrs r)) @ [CHR 0x0A]) w"
  by (simp add: Handle_def foldl_append_concat Let_def)

lemma h_attrs_With: "h_attrs (Logger_With h as) = h_attrs h @ as"
  by (simp add: Logger_With_def WithAttrs_def)

lemma h_attrs_fold_With: "h_attrs (foldl Logger_With h ass) = h_attrs h @ concat ass"
  by (induction ass arbitrary: h) (simp_all add: h_attrs_With)

section \<open>Counting characters\<close>

text \<open>Characters of a text are counted independently of an ASCII text after it: an incomplete sequence is
  not completed by it.\<close>

lemma not_between_ascii: "code a < 0x80 \<Longrightarrow> 0x80 \<le> lo \<Longrightarrow> \<not> between lo hi a"
  by (simp add: between_def)

lemma second_range_low: "0x80 \<le> fst (second_range b)"
  by (simp add: second_range_def)

lemma DecodeRune_before_ascii:
  assumes "s \<noteq> []" "code a < 0x80"
  shows "DecodeRune (s @ a # t) = DecodeRune s"
proof -
  have 1: "\<not> between (fst (second_range b)) hi a" "\<not> between 0x80 hi a" for b hi
    using assms(2) second_range_low [of b] by (simp_all add: not_between_ascii)
  obtain c cs where s: "s = c # cs" using assms(1) by (cases s) auto
  show ?thesis
  proof (cases cs)
    case Nil
    then show ?thesis using 1 s
      by (cases t) (auto simp: DecodeRune.simps(2) Let_def split_beta split: option.splits nat.splits list.splits)
  next
    case (Cons c1 cs1)
    show ?thesis
    proof (cases cs1)
      case Nil
      then show ?thesis using 1 s Cons
        by (cases t) (auto simp: DecodeRune.simps(2) Let_def split_beta split: option.splits nat.splits list.splits)
    next
      case c2: (Cons c2 cs2)
      then show ?thesis using 1 s Cons
        by (cases cs2) (auto simp: DecodeRune.simps(2) Let_def split_beta split: option.splits nat.splits list.splits)
    qed
  qed
qed

lemma runes_before_ascii: "list_all (\<lambda>c. code c < 0x80) t \<Longrightarrow> runes (s @ t) = runes s @ runes t"
proof (induction "length s" arbitrary: s rule: less_induct)
  case less
  show ?case
  proof (cases "s = [] \<or> t = []")
    case True
    then show ?thesis by (auto simp: runes.simps [of "[]"])
  next
    case False
    then obtain a t' where t: "t = a # t'" by (cases t) auto
    with False less.prems have d: "DecodeRune (s @ t) = DecodeRune s" by (simp add: DecodeRune_before_ascii)
    let ?k = "snd (DecodeRune s)"
    have k: "0 < ?k" "?k \<le> length s" using DecodeRune_size [of s] False by auto
    then have "runes (drop ?k s @ t) = runes (drop ?k s) @ runes t" using less by simp
    with k d False show ?thesis by (simp add: runes.simps [of "s @ t"] runes.simps [of s])
  qed
qed

lemma RuneCount_append_ascii:
  "list_all (\<lambda>c. code c < 0x80) t \<Longrightarrow> RuneCountInString (s @ t) = RuneCountInString s + length t"
  by (simp add: RuneCountInString_def runes_before_ascii runes_ascii)

lemma RuneCount_ascii_append:
  "list_all (\<lambda>c. code c < 0x80) t \<Longrightarrow> RuneCountInString (t @ s) = length t + RuneCountInString s"
proof (induction t)
  case (Cons c t)
  then have "runes (c # t @ s) = code c # runes (t @ s)" using DecodeRune_ascii [of c "t @ s"] by (subst runes.simps) simp
  with Cons show ?case by (simp add: RuneCountInString_def)
qed simp

lemma RuneCount_pad_right: "RuneCountInString (pad_right n s) = max n (RuneCountInString s)"
  by (simp add: pad_right_def RuneCount_append_ascii list_all_iff)

lemma digit_char_ascii: "d < 10 \<Longrightarrow> code (digit_char d) < 0x80"
  by (simp add: digit_char_def)

lemma show_nat_ascii: "list_all (\<lambda>c. code c < 0x80) (show_nat n)"
proof (induction n rule: show_nat.induct)
  case (1 n)
  then show ?case by (subst show_nat.simps) (simp add: digit_char_ascii)
qed

lemma Level_String_ascii: "list_all (\<lambda>c. code c < 0x80) (Level_String l)"
  using show_nat_ascii by (simp add: Level_String_def level_offset_def show_int_def)

lemma format_time_ascii:
  "Hour r < 24 \<Longrightarrow> Minute r < 60 \<Longrightarrow> Sec r < 60 \<Longrightarrow>
   list_all (\<lambda>c. code c < 0x80) (format_time r) \<and> length (format_time r) = 8"
  by (simp add: format_time_def two_digits_def digit_char_ascii)

lemma Level_String_four:
  "l \<in> {-4, 0, 4, 8} \<Longrightarrow> length (Level_String l) \<le> 5"
  by (auto simp: Level_String_def level_offset_def)

section \<open>Newlines\<close>

lemma show_int_no_newline: "CHR 0x0A \<notin> set (show_int n)"
proof -
  have d: "digit_char d \<noteq> CHR 0x0A" if "d < 10" for d
  proof
    assume "digit_char d = CHR 0x0A"
    then have "code (digit_char d) = 10" by simp
    with that show False by (simp add: digit_char_def)
  qed
  have "CHR 0x0A \<notin> set (show_nat n)" for n
  proof (induction n rule: show_nat.induct)
    case (1 n)
    then show ?case using d [of "n mod 10"] d [of n] by (subst show_nat.simps) auto
  qed
  then show ?thesis by (simp add: show_int_def)
qed
lemma format_head_newline:
  assumes "Hour r < 24" "Minute r < 60" "Sec r < 60"
  shows "CHR 0x0A \<in> set (format_head r) \<longleftrightarrow> CHR 0x0A \<in> set (Message r)"
proof -
  have d: "digit_char d \<noteq> CHR 0x0A" if "d < 10" for d
    using that show_int_no_newline [of "int d"] by (auto simp: show_int_def show_nat.simps [of d])
  have "Hour r div 10 < 10" "Minute r div 10 < 10" "Sec r div 10 < 10" using assms by simp_all
  then have "CHR 0x0A \<notin> set (format_time r)"
    using d [of "Hour r div 10"] d [of "Hour r mod 10"] d [of "Minute r div 10"] d [of "Minute r mod 10"]
      d [of "Sec r div 10"] d [of "Sec r mod 10"]
    by (auto simp: format_time_def two_digits_def)
  moreover have "CHR 0x0A \<notin> set (Level_String l)" for l
    using show_int_no_newline by (auto simp: Level_String_def level_offset_def)
  ultimately show ?thesis by (auto simp: format_head_def pad_right_def)
qed

lemma format_head_columns:
  assumes "Hour r < 24" "Minute r < 60" "Sec r < 60" "Level r \<in> {-4, 0, 4, 8}"
  shows "RuneCountInString (format_head r) = 15 + max 28 (RuneCountInString (Message r))"
proof -
  let ?t = "format_time r @ '' '' @ pad_right 5 (Level_String (Level r)) @ '' ''"
  have "RuneCountInString (Level_String (Level r)) = length (Level_String (Level r))"
    using Level_String_ascii by (rule RuneCountInString_ascii)
  with Level_String_four [OF assms(4)] have "length (pad_right 5 (Level_String (Level r))) = 5"
    by (simp add: pad_right_def)
  moreover have "list_all (\<lambda>c. code c < 0x80) ?t"
    using format_time_ascii [OF assms(1-3)] Level_String_ascii [of "Level r"] by (auto simp: pad_right_def list_all_iff)
  ultimately show ?thesis
    using RuneCount_ascii_append [of ?t "pad_right 28 (Message r)"] format_time_ascii [OF assms(1-3)]
    by (simp add: format_head_def RuneCount_pad_right)
qed

section \<open>Properties\<close>

text \<open>C29. What a log call writes: one write of one text that ends in a newline. It consists of the head,
  which pads time, level and message so that the attributes begin in a fixed column unless the message
  is longer than 28 characters, and of the attributes: first those attached to the logger, in the order
  of the \<open>With\<close> calls, then those of the call. The text is a single line exactly when neither the
  message nor an attribute contains a newline: values are not escaped.\<close>

theorem Handle_writes_line:
  assumes "Hour r < 24" "Minute r < 60" "Sec r < 60" "Level r \<in> {-4, 0, 4, 8}"
    and "attrs = h_attrs h @ concat ass @ RAttrs r"
  shows "\<exists>line. Handle write (foldl Logger_With h ass) r w = write (line @ [CHR 0x0A]) w \<and>
    line = format_head r @ concat (map format_attr attrs) \<and>
    RuneCountInString (format_head r) = 15 + max 28 (RuneCountInString (Message r)) \<and>
    (CHR 0x0A \<notin> set line \<longleftrightarrow> CHR 0x0A \<notin> set (Message r) \<and>
      (\<forall>a\<in>set attrs. CHR 0x0A \<notin> set (Key a) \<and> CHR 0x0A \<notin> set (Value_String (Value a))))"
proof (intro exI conjI)
  let ?line = "format_head r @ concat (map format_attr attrs)"
  show "Handle write (foldl Logger_With h ass) r w = write (?line @ [CHR 0x0A]) w"
    by (simp add: Handle_line h_attrs_fold_With assms(5))
  show "RuneCountInString (format_head r) = 15 + max 28 (RuneCountInString (Message r))"
    using assms(1-4) by (rule format_head_columns)
  have "CHR 0x0A \<in> set (format_attr a) \<longleftrightarrow> CHR 0x0A \<in> set (Key a) \<or> CHR 0x0A \<in> set (Value_String (Value a))" for a
    by (simp add: format_attr_def)
  then show "CHR 0x0A \<notin> set ?line \<longleftrightarrow> CHR 0x0A \<notin> set (Message r) \<and>
      (\<forall>a\<in>set attrs. CHR 0x0A \<notin> set (Key a) \<and> CHR 0x0A \<notin> set (Value_String (Value a)))"
    using format_head_newline [OF assms(1-3)] by auto
qed simp

theorem Handle_writes_line_witness:
  "\<exists>line. Handle (\<lambda>b (w :: string). (None :: nat option, w @ b))
      (foldl Logger_With NewCompactHandler [[\<lparr>Key = ''svc'', Value = StringValue ''UserService''\<rparr>]])
      \<lparr>Hour = 9, Minute = 5, Sec = 30, Level = 0, Message = ''started'', RAttrs = [\<lparr>Key = ''port'', Value = Int64Value 8080\<rparr>]\<rparr> [] =
      (None, line @ [CHR 0x0A]) \<and> CHR 0x0A \<notin> set line"
proof -
  let ?r = "\<lparr>Hour = 9, Minute = 5, Sec = 30, Level = 0, Message = ''started'', RAttrs = [\<lparr>Key = ''port'', Value = Int64Value 8080\<rparr>]\<rparr>"
  have "sint (8080 :: int64) = 8080" by simp
  with Handle_writes_line [of ?r _ NewCompactHandler "[[\<lparr>Key = ''svc'', Value = StringValue ''UserService''\<rparr>]]"
      "\<lambda>b (w :: string). (None :: nat option, w @ b)" "[]"] show ?thesis
    by (auto simp: NewCompactHandler_def show_int_no_newline)
qed

text \<open>Debug messages and everything above are written, the levels below are dropped; a failing writer
  does not show in the calling code.\<close>

lemma Logger_log_levels:
  "Logger_log write h r w = (if Level r < -4 then w else snd (Handle write h r w))"
  by (simp add: Logger_log_def Enabled_def LevelDebug_def)

lemma WithGroup_ignored: "Handle write (WithGroup h name) r w = Handle write h r w"
  by (simp add: WithGroup_def)

end
