(* ===== verification/Main_Program.thy ===== *)
theory Main_Program
  imports Wiring Operators Log
begin

text \<open>
  The process, \<open>main\<close> of \<open>cmd/server/main.go\<close>: initialisation and its failures, the goroutine that runs
  \<open>Start\<close>, waiting for a signal, shutdown, exit codes.

  \<^item> \<open>boot\<close> is what happens before the server runs: the operators table is loaded by the package
    initialiser (a panic ends the program), the configuration is loaded, the database opened.
  \<^item> \<open>main_exec\<close> is one step of the running process: a step of \<open>Start\<close> with an answer of its environment,
    its goroutine leaving the process after an error, the goroutine \<open>Run\<close> of the registry client ending
    it with a panic in \<open>time.NewTicker\<close> (theory \<open>Registry_Run\<close>: only for an interval that is not
    positive), or the next step of \<open>main\<close> itself. Signals are those that arrive after \<open>signal.Notify\<close>;
    the field \<open>signalled\<close> records that \<open>main\<close> has received one, and no step reads it.

  The lemmas say when the process exits, with which code, and what has been done by then.
\<close>

section \<open>Boot\<close>

definition main_logger :: "Config \<Rightarrow> CompactHandler" where
  "main_logger cfg = Logger_With NewCompactHandler [\<lparr>Key = ''svc'', Value = StringValue (ServiceName cfg)\<rparr>]"

datatype main_pc = WaitSignal | CallStop | Return | Exited int

record 'w main_sys =
  main_pc :: main_pc
  main_srv :: "'w srv_sys"
  signalled :: bool

datatype 'g boot = InitPanic | OpenFailed string | Running Config "'g app" postgres "'g app_world main_sys"

record 'g machine =
  mc_files :: files
  mc_rootFile :: string
  mc_env :: environment
  mc_host :: string
  mc_driver :: sql_driver
  mc_postgres :: postgres
  mc_encoding :: app_pb
  mc_rand :: "'g rand_source"
  mc_faults :: fault_plan

definition main_app :: "'g machine \<Rightarrow> Config \<Rightarrow> pool \<Rightarrow> 'g app" where
  "main_app mc cfg pool =
     \<lparr>app_encoding = mc_encoding mc, app_rand = mc_rand mc, app_pool = pool, app_faults = mc_faults mc,
      app_gacha = main_gacha cfg (mc_host mc)\<rparr>"

definition boot :: "'g machine \<Rightarrow> 'g boot" where
  "boot mc =
     (case init_pool operators_json of
        None \<Rightarrow> InitPanic
      | Some pool \<Rightarrow>
          (let cfg = Load (mc_files mc) (mc_rootFile mc) (mc_env mc) in
           case Open (mc_driver mc) (DatabaseURL cfg) (mc_postgres mc) of
             (Some e, p) \<Rightarrow> OpenFailed e
           | (None, p) \<Rightarrow>
               (let a = main_app mc cfg pool in
                Running cfg a p \<lparr>main_pc = WaitSignal, main_srv = start_server (main_server cfg a), signalled = False\<rparr>)))"

text \<open>The exit code of a program that does not get to run the server; a panic exits with 2.\<close>

fun boot_exit :: "'g boot \<Rightarrow> int option" where
  "boot_exit InitPanic = Some 2"
| "boot_exit (OpenFailed e) = Some 1"
| "boot_exit (Running cfg a p s) = None"

section \<open>The running process\<close>

datatype 'w main_event = Answer "'w srv_event" | StartFailed | RunPanics | Signal | StopServer | MainReturns

text \<open>\<open>Stop\<close> and the cancellation are calls of \<open>main\<close>; the other events of the server are answers.\<close>

fun is_answer :: "'w srv_event \<Rightarrow> bool" where
  "is_answer StopCall = False"
| "is_answer CtxCancel = False"
| "is_answer _ = True"

fun start_failed :: "start_pc \<Rightarrow> bool" where
  "start_failed (StartReturned (Some e)) = True"
| "start_failed _ = False"

fun has_exited :: "main_pc \<Rightarrow> bool" where
  "has_exited (Exited c) = True"
| "has_exited _ = False"

definition main_exec :: "registry_pb \<Rightarrow> 'w main_event \<Rightarrow> 'w main_sys \<Rightarrow> 'w main_sys option" where
  "main_exec pb ev s =
     (if has_exited (main_pc s) then None
      else case ev of
        Answer e \<Rightarrow>
          if is_answer e then map_option (\<lambda>t. s\<lparr>main_srv := t\<rparr>) (srv_exec pb e (main_srv s)) else None
      | StartFailed \<Rightarrow> if start_failed (start_pc (main_srv s)) then Some (s\<lparr>main_pc := Exited 1\<rparr>) else None
      | RunPanics \<Rightarrow>
          if run_started (main_srv s) \<and> heartbeatInterval (registry (server (main_srv s))) \<le>s 0
          then Some (s\<lparr>main_pc := Exited 2\<rparr>) else None
      | Signal \<Rightarrow> if main_pc s = WaitSignal then Some (s\<lparr>main_pc := CallStop, signalled := True\<rparr>) else None
      | StopServer \<Rightarrow>
          if main_pc s = CallStop then Some (s\<lparr>main_pc := Return, main_srv := Server_Stop (main_srv s)\<rparr>) else None
      | MainReturns \<Rightarrow>
          if main_pc s = Return
          then Some (s\<lparr>main_pc := Exited 0, main_srv := (main_srv s)\<lparr>srv_ctx_done := True\<rparr>\<rparr>) else None)"

inductive main_step :: "registry_pb \<Rightarrow> 'w main_sys \<Rightarrow> 'w main_sys \<Rightarrow> bool" for pb where
  main_event: "main_exec pb ev s = Some t \<Longrightarrow> main_step pb s t"

abbreviation main_reach :: "registry_pb \<Rightarrow> 'w main_sys \<Rightarrow> 'w main_sys \<Rightarrow> bool" where
  "main_reach pb \<equiv> (main_step pb)\<^sup>*\<^sup>*"

section \<open>Invariant\<close>

text \<open>\<open>Register\<close> and \<open>Stop\<close> leave the identity of the registry client alone.\<close>

lemma Register_keeps:
  assumes "Registry_Client.Register pb d c n = Some (e, c', n')"
  shows "stopCh c' = stopCh c \<and> heartbeatInterval c' = heartbeatInterval c"
proof (cases d)
  case (DialError x)
  with assms show ?thesis by (simp add: Registry_Client.Register_def)
next
  case (Dialed r rm)
  from assms [unfolded this] show ?thesis
    by (cases rule: Register_exits) (auto simp: dropped_conn_def fresh_conn_def)
qed

lemma Server_Stop_client:
  "stopCh (registry (server (Server_Stop s)))"
  "heartbeatInterval (registry (server (Server_Stop s))) = heartbeatInterval (registry (server s))"
  by (auto simp: Server_Stop_def Stop_def Deregister_def closeConn_def Let_def split: option.splits)

text \<open>Until \<open>main\<close> returns the context is not cancelled, so \<open>Start\<close> does not return without an error;
  \<open>main\<close> leaves its wait only for a signal; from \<open>Stop\<close> on the registry client is stopped. \<open>iv\<close> is the
  configured heartbeat interval.\<close>

definition exit_inv :: "'w main_sys \<Rightarrow> bool" where
  "exit_inv s \<longleftrightarrow>
     (case main_pc s of
        WaitSignal \<Rightarrow> \<not> signalled s
      | CallStop \<Rightarrow> signalled s
      | Return \<Rightarrow> signalled s \<and> stopCh (registry (server (main_srv s)))
      | Exited c \<Rightarrow>
          c = 0 \<and> signalled s \<and> stopCh (registry (server (main_srv s))) \<or>
          c = 1 \<and> start_failed (start_pc (main_srv s)) \<or>
          c = 2 \<and> run_started (main_srv s) \<and> heartbeatInterval (registry (server (main_srv s))) \<le>s 0)"

definition main_inv :: "int64 \<Rightarrow> 'w main_sys \<Rightarrow> bool" where
  "main_inv iv s \<longleftrightarrow> start_inv (main_srv s) \<and> exit_inv s \<and>
     heartbeatInterval (registry (server (main_srv s))) = iv \<and>
     (main_pc s \<noteq> Exited 0 \<longrightarrow> \<not> srv_ctx_done (main_srv s))"

definition client_kept :: "'w srv_sys \<Rightarrow> 'w srv_sys \<Rightarrow> bool" where
  "client_kept s t \<longleftrightarrow> srv_ctx_done t = srv_ctx_done s \<and>
     stopCh (registry (server t)) = stopCh (registry (server s)) \<and>
     heartbeatInterval (registry (server t)) = heartbeatInterval (registry (server s))"

lemma answer_keeps:
  assumes "is_answer e" "srv_exec pb e s = Some t"
  shows "client_kept s t"
proof (cases e)
  case (RegisterAnswer d)
  with assms have "register_step pb d s = Some t" by (auto simp: srv_exec_def split: if_splits)
  then show ?thesis by (auto simp: register_step_def client_kept_def Let_def dest!: Register_keeps split: option.splits)
next
  case (ListenAnswer x)
  with assms show ?thesis by (cases x) (auto simp: srv_exec_def client_kept_def split: if_splits)
next
  case (AcceptAnswer x)
  with assms show ?thesis by (cases x) (auto simp: srv_exec_def client_kept_def split: if_splits)
qed (use assms in auto)

interpretation process: invariant_of "main_step pb" "main_inv iv" for pb iv
proof unfold_locales
  fix s t :: "'a main_sys"
  assume inv: "main_inv iv s" and "main_step pb s t"
  from this(2) obtain ev where ev: "main_exec pb ev s = Some t" by (auto elim: main_step.cases)
  then have running: "\<not> has_exited (main_pc s)" by (auto simp: main_exec_def)
  show "main_inv iv t"
  proof (cases ev)
    case (Answer e)
    with ev running obtain u where u: "is_answer e" "srv_exec pb e (main_srv s) = Some u" "t = s\<lparr>main_srv := u\<rparr>"
      by (auto simp: main_exec_def split: if_splits)
    have "start_inv u" using srv_start.inv_step [OF _ srv_step.event [OF u(2)]] inv by (auto simp: main_inv_def)
    with inv running answer_keeps [OF u(1,2)] u(3) show ?thesis
      by (cases "main_pc s") (auto simp: main_inv_def exit_inv_def client_kept_def)
  next
    case StopServer
    have "start_inv (Server_Stop (main_srv s))"
      using srv_start.inv_step [OF _ srv_step.event [of pb StopCall]] inv by (auto simp: main_inv_def srv_exec_def)
    with StopServer ev inv running show ?thesis
      by (auto simp: main_exec_def main_inv_def exit_inv_def Server_Stop_client split: if_splits)
  next
    case MainReturns
    have "start_inv ((main_srv s)\<lparr>srv_ctx_done := True\<rparr>)"
      using inv by (auto simp: main_inv_def start_inv_def)
    with MainReturns ev inv running show ?thesis
      by (auto simp: main_exec_def main_inv_def exit_inv_def split: if_splits)
  qed (use ev inv running in \<open>auto simp: main_exec_def main_inv_def exit_inv_def split: if_splits\<close>)
qed

lemma boot_ok:
  assumes "cfg = Load (mc_files mc) (mc_rootFile mc) (mc_env mc)"
    and "Open (mc_driver mc) (DatabaseURL cfg) (mc_postgres mc) = (None, p)"
  shows "boot mc = (let a = main_app mc cfg (build_pool operators) in
    Running cfg a p \<lparr>main_pc = WaitSignal, main_srv = start_server (main_server cfg a), signalled = False\<rparr>)"
  using assms by (simp add: boot_def init_operators Let_def)

lemma boot_Running:
  assumes "boot mc = Running cfg a p s"
  shows "cfg = Load (mc_files mc) (mc_rootFile mc) (mc_env mc)" "a = main_app mc cfg (build_pool operators)"
    "s = \<lparr>main_pc = WaitSignal, main_srv = start_server (main_server cfg a), signalled = False\<rparr>"
  using assms by (auto simp: boot_def init_operators Let_def split: prod.splits option.splits)

lemma boot_app_ok: "boot mc = Running cfg a p s \<Longrightarrow> rand_ok (mc_rand mc) \<Longrightarrow> app_ok a operators"
  using operators_full by (drule_tac boot_Running(2)) (simp add: app_ok_def main_app_def)

lemma start_server_router [simp]: "router (server (start_server (main_server cfg a))) = main_router a"
  by (simp add: start_server_def main_server_def NewServer_def)

lemma app_never_panics:
  assumes "app_ok a ops" "Route (main_router a) sv m = Some h"
  shows "fst (h payload w) \<noteq> Panic msg"
  using main_handlers_reply [OF assms, of "\<lparr>RequestId = [], Service = [], Method = [], Payload = []\<rparr>" payload w] by auto

text \<open>A process that does not run the server.\<close>

lemma boot_exit_iff:
  "boot_exit (boot mc) = Some c \<longleftrightarrow> c = 1 \<and>
     fst (Open (mc_driver mc) (DatabaseURL (Load (mc_files mc) (mc_rootFile mc) (mc_env mc))) (mc_postgres mc)) \<noteq> None"
  by (auto simp: boot_def init_operators Let_def split: prod.splits option.splits)

lemma boot_inv:
  assumes "boot mc = Running cfg a p s0" "main_reach pb s0 s"
  shows "main_inv (HeartbeatInterval cfg) s"
proof -
  have "main_inv (HeartbeatInterval cfg) s0"
    by (simp add: boot_Running(3) [OF assms(1)] main_inv_def exit_inv_def start_inv_def start_server_def main_server_def
        NewServer_def main_client_def NewClient_def)
  with process.inv_reached [OF assms(2)] show ?thesis .
qed

text \<open>After a signal \<open>main\<close> calls \<open>Stop\<close> and returns.\<close>

lemma shutdown_runs:
  assumes "main_inv iv s" "signalled s" "\<not> has_exited (main_pc s)"
  shows "\<exists>t. main_reach pb s t \<and> main_pc t = Exited 0"
proof -
  have ret: "\<exists>t. main_step pb s t \<and> main_pc t = Exited 0" if "main_pc s = Return" for s :: "'a main_sys"
    using that by (intro exI [of _ "s\<lparr>main_pc := Exited 0, main_srv := (main_srv s)\<lparr>srv_ctx_done := True\<rparr>\<rparr>"])
      (auto intro!: main_step.main_event [of _ MainReturns] simp: main_exec_def)
  have "main_pc s = CallStop \<or> main_pc s = Return"
    using assms by (cases "main_pc s") (auto simp: main_inv_def exit_inv_def)
  then show ?thesis
  proof
    assume "main_pc s = CallStop"
    then have "main_step pb s (s\<lparr>main_pc := Return, main_srv := Server_Stop (main_srv s)\<rparr>)"
      by (auto intro!: main_step.main_event [of _ StopServer] simp: main_exec_def)
    with ret [of "s\<lparr>main_pc := Return, main_srv := Server_Stop (main_srv s)\<rparr>"] show ?thesis
      by (auto intro: converse_rtranclp_into_rtranclp)
  qed (use ret in blast)
qed

section \<open>Properties\<close>

text \<open>C11. The process comes up: with the operators table that is compiled in, any configuration and a
  database that answers, boot succeeds. \<open>main\<close> then waits for a signal with a server built from the
  loaded configuration, the tables exist, and no request to any of the server's routes makes its handler
  panic, whatever its payload and the state of the database. Assumed are the ranges documented for the
  random generator.\<close>

theorem boot_runs:
  assumes "rand_ok (mc_rand mc)" "cfg = Load (mc_files mc) (mc_rootFile mc) (mc_env mc)"
    and "Open (mc_driver mc) (DatabaseURL cfg) (mc_postgres mc) = (None, p)"
  shows "\<exists>a s. boot mc = Running cfg a p s \<and> main_pc s = WaitSignal \<and>
    main_srv s = start_server (main_server cfg a) \<and> database_of uv se p \<noteq> None \<and>
    (\<forall>sv m h payload w msg. Route (router (server (main_srv s))) sv m = Some h \<longrightarrow> fst (h payload w) \<noteq> Panic msg)"
proof -
  let ?a = "main_app mc cfg (build_pool operators)"
  have b: "boot mc = Running cfg ?a p \<lparr>main_pc = WaitSignal, main_srv = start_server (main_server cfg ?a), signalled = False\<rparr>"
    using boot_ok [OF assms(2,3)] by (simp add: Let_def)
  have "database_of uv se p \<noteq> None"
    using Open_success [OF assms(3)] by (auto simp: database_of_def create_tables split: option.splits)
  with b app_never_panics [OF boot_app_ok [OF b assms(1)]] show ?thesis by auto
qed

definition sample_machine :: "nat machine" where
  "sample_machine =
     \<lparr>mc_files = (\<lambda>_. None), mc_rootFile = ''server.json'', mc_env = (\<lambda>_. []), mc_host = ''host'',
      mc_driver = \<lparr>sql_Open = (\<lambda>_. None), sql_Ping = None, sql_Exec = (\<lambda>_. None)\<rparr>,
      mc_postgres = \<lparr>users_table = None, cards_table = None\<rparr>,
      mc_encoding = \<lparr>unmarshal_RegisterRequest = (\<lambda>p. Inr \<lparr>RegName = map byte_char p, RegPassword = ''pw''\<rparr>),
        marshal_RegisterResponse = (\<lambda>r. Inr [ucast (UserId r)]),
        unmarshal_LoginRequest = (\<lambda>p. Inr \<lparr>LoginName = map byte_char p, LoginPassword = ''pw''\<rparr>),
        marshal_LoginResponse = (\<lambda>r. Inr [ucast (UserId r)]),
        unmarshal_LogoutRequest = (\<lambda>p. Inr \<lparr>LogoutUserId = 0\<rparr>), marshal_LogoutResponse = (\<lambda>r. Inr []),
        unmarshal_DrawRequest = (\<lambda>p. Inl ''bad draw request''), marshal_DrawResponse = (\<lambda>r. Inr [])\<rparr>,
      mc_rand = sample_rand, mc_faults = (\<lambda>_. None)\<rparr>"

lemma sample_machine_facts:
  "rand_ok (mc_rand sample_machine)"
  "Open (mc_driver sample_machine) url (mc_postgres sample_machine) =
     (None, \<lparr>users_table = Some ([], 1), cards_table = Some []\<rparr>)"
  by (simp_all add: sample_machine_def sample_rand_ok Open_def create_users_def create_cards_def)

theorem boot_runs_witness:
  "\<exists>cfg a s h. boot sample_machine = Running cfg a \<lparr>users_table = Some ([], 1), cards_table = Some []\<rparr> s \<and>
     main_pc s = WaitSignal \<and> Route (router (server (main_srv s))) ''GachaService'' ''draw'' = Some h \<and>
     (\<forall>payload w msg. fst (h payload w) \<noteq> Panic msg)"
proof -
  have "Route (main_router a) ''GachaService'' ''draw'' = Some (gacha_handlers a ''Draw'')" for a :: "nat app"
    unfolding main_routes by (simp add: main_entries_def)
  with boot_runs [OF sample_machine_facts(1) refl sample_machine_facts(2)] show ?thesis by fastforce
qed

text \<open>C12. How the process ends. A process that does not get to run the server exits with 1, and does so
  exactly when the database cannot be opened. A running one exits with 0 only after \<open>main\<close> received a
  signal and called \<open>Stop\<close>, when the registry client has been stopped; with 1 only because \<open>Start\<close> failed,
  before anything was listened on or accepted; with 2, a panic, only when \<open>Run\<close> was started with a
  heartbeat interval that is not positive; and with no other code. As long as it runs \<open>Start\<close> does not
  return without an error, and once a signal has been received it can exit with 0, whatever \<open>Start\<close> is
  doing.\<close>

theorem main_exit_codes:
  "(boot_exit (boot mc) = Some c \<longleftrightarrow> c = 1 \<and>
     fst (Open (mc_driver mc) (DatabaseURL (Load (mc_files mc) (mc_rootFile mc) (mc_env mc))) (mc_postgres mc)) \<noteq> None) \<and>
   (boot mc = Running cfg a p s0 \<and> main_reach pb s0 s \<longrightarrow>
     (main_pc s = Exited c \<longrightarrow>
        c = 0 \<and> signalled s \<and> stopCh (registry (server (main_srv s))) \<or>
        c = 1 \<and> (\<exists>e. start_pc (main_srv s) = StartReturned (Some e)) \<and>
          listener (server (main_srv s)) = NoListener \<and> conns (main_srv s) = [] \<or>
        c = 2 \<and> run_started (main_srv s) \<and> sint (HeartbeatInterval cfg) \<le> 0) \<and>
     (main_pc s \<in> {WaitSignal, CallStop, Return} \<longrightarrow> start_pc (main_srv s) \<noteq> StartReturned None) \<and>
     (signalled s \<and> \<not> has_exited (main_pc s) \<longrightarrow> (\<exists>t. main_reach pb s t \<and> main_pc t = Exited 0)))"
proof (intro conjI impI)
  show "boot_exit (boot mc) = Some c \<longleftrightarrow> c = 1 \<and>
     fst (Open (mc_driver mc) (DatabaseURL (Load (mc_files mc) (mc_rootFile mc) (mc_env mc))) (mc_postgres mc)) \<noteq> None"
    by (rule boot_exit_iff)
next
  assume "boot mc = Running cfg a p s0 \<and> main_reach pb s0 s"
  then have inv: "main_inv (HeartbeatInterval cfg) s" using boot_inv by blast
  have failed: "start_failed pc \<longleftrightarrow> (\<exists>e. pc = StartReturned (Some e))" for pc
    by (cases pc rule: start_failed.cases) auto
  show "c = 0 \<and> signalled s \<and> stopCh (registry (server (main_srv s))) \<or>
        c = 1 \<and> (\<exists>e. start_pc (main_srv s) = StartReturned (Some e)) \<and>
          listener (server (main_srv s)) = NoListener \<and> conns (main_srv s) = [] \<or>
        c = 2 \<and> run_started (main_srv s) \<and> sint (HeartbeatInterval cfg) \<le> 0" if "main_pc s = Exited c"
    using inv that by (auto simp: main_inv_def exit_inv_def start_inv_def failed word_sle_eq)
  show "start_pc (main_srv s) \<noteq> StartReturned None" if "main_pc s \<in> {WaitSignal, CallStop, Return}"
    using inv that by (auto simp: main_inv_def start_inv_def)
  show "\<exists>t. main_reach pb s t \<and> main_pc t = Exited 0" if "signalled s \<and> \<not> has_exited (main_pc s)"
    using shutdown_runs [OF inv] that by blast
qed

theorem main_exit_codes_witness:
  "\<exists>s0 s t. (\<exists>cfg a p. boot sample_machine = Running cfg a p s0) \<and> main_exec sample_registry Signal s0 = Some s \<and>
     main_reach sample_registry s t \<and> main_pc t = Exited 0 \<and> signalled t"
proof -
  let ?cfg = "Load (mc_files sample_machine) (mc_rootFile sample_machine) (mc_env sample_machine)"
  obtain a p s0 where b: "boot sample_machine = Running ?cfg a p s0" "main_pc s0 = WaitSignal"
    using boot_ok [OF refl sample_machine_facts(2)] by (auto simp: Let_def)
  let ?s = "s0\<lparr>main_pc := CallStop, signalled := True\<rparr>"
  have e: "main_exec sample_registry Signal s0 = Some ?s" using b(2) by (simp add: main_exec_def)
  then have r: "main_reach sample_registry s0 ?s" by (auto intro: main_step.main_event)
  then obtain t where t: "main_reach sample_registry ?s t" "main_pc t = Exited 0"
    using main_exit_codes [of sample_machine 0 ?cfg a p s0 sample_registry ?s] b(1) by auto
  with r have "main_reach sample_registry s0 t" by simp
  then have "signalled t"
    using main_exit_codes [of sample_machine 0 ?cfg a p s0 sample_registry t] b(1) t(2) by auto
  with b(1) e t show ?thesis by blast
qed

end
