(* ===== verification/Spec2Isabelle.thy ===== *)
theory Spec2Isabelle
  imports Main_Program
begin

text \<open>
  A verification of the Go server of an RPC framework (\<open>server/\<close>), whose other parts are a service
  registry in Rust (\<open>registry/\<close>) and a client library in Kotlin and Java (\<open>client/\<close>). The three
  speak protobuf messages in length-prefixed frames over TCP.

  \<^bold>\<open>The program.\<close> \<open>cmd/server/main.go\<close> loads the configuration, opens the database, registers the
  services on a router through generated code, builds the registry client and the server, and starts
  it. The server registers with the registry, keeps the registration alive with heartbeats on a
  connection of its own (reconnecting when it is lost), accepts client connections and serves each with
  one reading goroutine and one goroutine per request.

  \<^bold>\<open>The theories\<close>, in the order of the calls:

  \<^item> \<open>Prelude\<close>: machine integers, big-endian words, decimal printing, lemmas shared by the components,
    the locales \<open>invariant_of\<close> and \<open>terminating\<close> for the step relations below, and \<open>text_codec\<close> for printers
    whose texts are read back.
  \<^item> \<open>Codec\<close> (\<open>internal/codec/codec.go\<close>): \<open>ReadFrame\<close>, \<open>WriteFrame\<close> and \<open>io.ReadFull\<close> over abstract
    readers and writers (locales \<open>io_reader\<close>, \<open>io_writer\<close>, \<open>frame_link\<close>), interpreted on a TCP
    connection that delivers arbitrary chunks and may fail. A read that blocks for ever is \<open>None\<close>.
    Refinement of a frame function on byte streams, round trip, behaviour on cut streams.
  \<^item> \<open>Router\<close> (\<open>internal/router/router.go\<close>): registration and lookup; locale \<open>dispatch_table\<close>. Keys of
    dot-free names cannot collide.
  \<^item> \<open>Messages\<close> (\<open>proto/framework\<close>): the messages; their encoding is a parameter.
  \<^item> \<open>Server\<close> (\<open>internal/server/server.go\<close>, \<open>handleConnection\<close> and \<open>writeError\<close>): a step relation in
    which the goroutines of a connection interleave at every read, handler call, mutex operation and
    single \<open>Write\<close>, on a connection that may take any number of bytes before writing fails. Every request
    answered exactly once, responses never interleaved, mutual exclusion, bounded runs, what happens on
    panics, short writes and read errors.
  \<^item> \<open>Registry_Client\<close>, \<open>Registry_Run\<close> (\<open>internal/registry/client.go\<close>): \<open>Register\<close> with all its error
    exits, heartbeats, back-off; then \<open>Run\<close>, its reader and \<open>Stop\<close> as concurrent steps over a store of
    connections. Protocol conformance of every connection, shutdown, sleeping times, the
    connection pointer.
  \<^item> \<open>Lifecycle\<close> (\<open>internal/server/server.go\<close>, \<open>Start\<close> and \<open>Stop\<close>): registration, listening, accepting.
  \<^item> \<open>Utf8\<close>, \<open>Json\<close>, \<open>Json_Decode\<close>: UTF-8, the JSON texts \<open>encoding/json\<close> accepts, and how values are
    assigned to the fields of a struct, with \<open>strconv.Atoi\<close>: a model of the standard library for the theories
    of the code that calls it. Round trip of printed values; accepted texts give well-formed values.
  \<^item> \<open>Config\<close> (\<open>internal/config/config.go\<close>): defaults, JSON file, environment.
  \<^item> \<open>Log\<close> (\<open>internal/log/log.go\<close>): the log handler; what a line consists of.
  \<^item> \<open>Database\<close> (\<open>internal/db/db.go\<close>): \<open>Open\<close>, the tables with the statements run on them, locale
    \<open>user_store\<close>; \<open>HashPassword\<close> with SHA-256.
  \<^item> \<open>User_Service\<close>, \<open>Gacha_Service\<close>, \<open>Operators\<close> (\<open>app/\<close>): the services, the second with floating-point
    sums and the loading of \<open>operators.json\<close>; the third holds the entries and the layout of that file, and
    shows that \<open>init\<close> accepts it.
  \<^item> \<open>Proto_Parser\<close>, \<open>Genrpc\<close>, \<open>Gen_Text\<close> (\<open>cmd/genrpc\<close>, \<open>cmd/genrpc-java\<close>, \<open>cmd/genproto\<close>): the regular
    expressions that parse service definitions, the data of the templates and what the generated Go code
    does, the texts the templates produce and the files left on disk; \<open>Paths\<close>, the
    directories. \<open>Proto_Files\<close> evaluates the parser on the files of \<open>proto/\<close>, and follows a method from a
    proto file to both outputs.
  \<^item> \<open>Wiring\<close>, \<open>Main_Program\<close> (\<open>cmd/server/main.go\<close>): the composition; then boot, signals, shutdown and exit
    codes. This theory holds the properties of the whole.

  \<^bold>\<open>Conventions.\<close> Go's \<open>int\<close> and \<open>time.Duration\<close> are 64-bit words read with \<open>sint\<close>, \<open>int32\<close> fields
  32-bit words; strings are byte sequences. Errors are values of sum or option types, a panic is a
  value of its own. Choices of the environment (chunks, dial answers, database faults, schedules) are
  arguments or steps, so the theorems hold for all of them. Loops are recursive functions; the only
  loop that may run for ever, reading from a connection, is a partial function, and for a connection
  with finite input its result is proved. The only fuel is that of \<open>log2_floor\<close> (1023 halvings or
  doublings, the exponent range of a normal double).

  \<^bold>\<open>Parameters.\<close> Protobuf marshalling (\<open>rpc_pb\<close>, \<open>registry_pb\<close>, \<open>app_pb\<close>), the random generator
  (\<open>rand_source\<close>, with its documented ranges \<open>rand_ok\<close>), the configuration files and the
  environment, what a directory walk visits, running \<open>protoc\<close>, the faults and error texts of the database
  and its driver. What is relied on of protobuf is named \<open>rpc_pb_ok\<close> and \<open>app_pb_ok\<close>: strings are checked to be
  UTF-8 when they are unmarshalled, messages with UTF-8 strings can be marshalled, errors have UTF-8 texts.

  \<^bold>\<open>Recorded history.\<close> Some states carry fields no step reads, for the theorems only: the responses
  \<open>answered\<close> and \<open>failed\<close> on a connection, the time \<open>slept\<close>, the answer \<open>dialed\<close> by the registry to \<open>Start\<close>,
  whether \<open>main\<close> was \<open>signalled\<close>.

  \<^bold>\<open>Not modelled.\<close> The Rust registry and the Kotlin client; what the components log (the handler itself
  is modelled); the wire format of protobuf, which is generated code. A frame of the registry client is
  written in one step, and \<open>Register\<close>, when \<open>Start\<close> calls it, is one step too. A signal that arrives before
  \<open>signal.Notify\<close> ends the process by itself. A database statement that fails has changed nothing: a
  connection lost after a commit is not covered. The Go runtime may close the descriptor of a registry
  connection the client has dropped, at a garbage collection; in the model it stays open.
\<close>

section \<open>The whole server\<close>

text \<open>C1. The process, once booted, answers every request exactly once: on a connection that stays open,
  in whatever chunks the frames arrive and under any schedule of the goroutines, once none can step
  the request ids answered are those received, counted with multiplicity, and the wire holds the
  responses, each as it was marshalled, complete and one after the other. No service panics and no
  response fails to be marshalled; assumed for that are only the ranges documented for the random
  generator and, of the protobuf library, that it checks the strings it unmarshals to be UTF-8, marshals
  messages whose strings are UTF-8, and gives its errors texts in UTF-8.\<close>

theorem server_answers_every_request:
  assumes "boot mc = Running cfg a p s0" "rand_ok (mc_rand mc)" "app_pb_ok (mc_encoding mc)" "rpc_pb_ok pb"
    and "\<forall>d\<in>set ds. length d \<le> max_frame" "concat cs = concat (map encode_frame ds)"
    and "conn_reach pb (router (server (main_srv s0))) (accept_conn (reader_of cs None) None w) s"
    and "quiescent pb (router (server (main_srv s0))) s"
  shows "mset (map (\<lambda>(i, resp, d). RespRequestId resp) (answered s)) = mset (map (request_id pb) ds) \<and>
    sent (out s) = concat (map (\<lambda>(i, resp, d). encode_frame d) (answered s)) \<and>
    (\<forall>(i, resp, d) \<in> set (answered s). marshal_response pb resp = Inr d)"
proof -
  note b = boot_Running(2,3) [OF assms(1)]
  have "total_replies pb (main_router a)"
    using boot_app_ok [OF assms(1,2)] _ assms(4) by (rule main_total_replies) (simp add: b(1) main_app_def assms(3))
  with requests_all_answered [OF _ assms(5,6)] assms(7,8) show ?thesis by (simp add: b(2))
qed

text \<open>A wire format for the examples: the request's id, its route, its payload; a response is refused when
  its strings are not UTF-8.\<close>

fun sample_route :: "byte \<Rightarrow> string \<times> string" where
  "sample_route n = (if n = 1 then (''UserService'', ''register'') else if n = 2 then (''UserService'', ''login'')
     else if n = 3 then (''GachaService'', ''draw'') else (''GachaService'', ''refund''))"

fun sample_unmarshal :: "bytes \<Rightarrow> string + RpcRequest" where
  "sample_unmarshal (i # n # p) =
     (if i < 0x80
      then Inr \<lparr>RequestId = [byte_char i], Service = fst (sample_route n), Method = snd (sample_route n), Payload = p\<rparr>
      else Inl ''invalid UTF-8'')"
| "sample_unmarshal _ = Inl ''unexpected EOF''"

definition sample_pb :: rpc_pb where
  "sample_pb = \<lparr>unmarshal_request = sample_unmarshal,
     marshal_response = (\<lambda>r. if utf8_response r
       then Inr (map char_byte (RespRequestId r) @ (if RespError r = None then 0 else 1) # RespPayload r)
       else Inl ''invalid UTF-8'')\<rparr>"

lemma sample_pb_ok: "rpc_pb_ok sample_pb"
proof -
  have "valid_utf8 e" if "sample_unmarshal d = Inl e" for d e
    using that by (cases d rule: sample_unmarshal.cases) (auto simp: valid_utf8_ascii split: if_splits)
  moreover have "valid_utf8 (RequestId req) \<and> valid_utf8 (Service req) \<and> valid_utf8 (Method req)"
    if "sample_unmarshal d = Inr req" for d req
    using that
    by (cases d rule: sample_unmarshal.cases)
      (auto simp: valid_utf8_ascii byte_char_def word_less_nat_alt split: if_splits)
  ultimately show ?thesis by (auto simp: rpc_pb_ok_def utf8_errors_def sample_pb_def)
qed

lemma sample_app_pb_ok: "app_pb_ok (mc_encoding sample_machine)"
  by (simp add: app_pb_ok_def utf8_errors_def sample_machine_def valid_utf8_ascii)

theorem server_answers_every_request_witness:
  "\<exists>cfg a p s0 s. boot sample_machine = Running cfg a p s0 \<and>
     conn_reach sample_pb (router (server (main_srv s0))) (accept_conn (reader_of
       [[0,0,0,3,65,1], [90,0,0,0,3,66,2,90,0,0,0,2], [67,3,0,0,0,2,68,9,0,0,0,1,7]] None) None
       \<lparr>world_db = empty_database ''dup'' ''end'', world_rand = 0, db_clock = 0\<rparr>) s \<and>
     quiescent sample_pb (router (server (main_srv s0))) s \<and>
     map fst (routed sample_pb (router (server (main_srv s0))) [[65,1,90], [66,2,90], [67,3], [68,9], [7]]) =
       [\<lparr>RequestId = ''A'', Service = ''UserService'', Method = ''register'', Payload = [90]\<rparr>,
        \<lparr>RequestId = ''B'', Service = ''UserService'', Method = ''login'', Payload = [90]\<rparr>,
        \<lparr>RequestId = ''C'', Service = ''GachaService'', Method = ''draw'', Payload = []\<rparr>] \<and>
     mset (map (\<lambda>(i, resp, d). RespRequestId resp) (answered s)) = {#''A'', ''B'', ''C'', ''D'', []#}"
proof -
  let ?cs = "[[0,0,0,3,65,1], [90,0,0,0,3,66,2,90,0,0,0,2], [67,3,0,0,0,2,68,9,0,0,0,1,7]] :: bytes list"
  let ?ds = "[[65,1,90], [66,2,90], [67,3], [68,9], [7]] :: bytes list"
  let ?w = "\<lparr>world_db = empty_database ''dup'' ''end'', world_rand = 0, db_clock = 0\<rparr> :: nat app_world"
  obtain cfg a p s0 where b: "boot sample_machine = Running cfg a p s0"
    using boot_ok [OF refl sample_machine_facts(2)] by (auto simp: Let_def)
  let ?rt = "router (server (main_srv s0))"
  have rt: "?rt = main_router a" by (simp add: boot_Running(3) [OF b])
  obtain s where s: "conn_reach sample_pb ?rt (accept_conn (reader_of ?cs None) None ?w) s" "quiescent sample_pb ?rt s"
    using conn_reaches_quiescent by blast
  have frames: "concat ?cs = concat (map encode_frame ?ds)"
    by (simp add: encode_frame_def frame_header_def PutUint32_def)
  have id: "map (request_id sample_pb) ?ds = [''A'', ''B'', ''C'', ''D'', []]"
    by (simp add: request_id_def sample_pb_def byte_char_def char_of_def bit_0)
  have routed: "map fst (routed sample_pb ?rt ?ds) =
       [\<lparr>RequestId = ''A'', Service = ''UserService'', Method = ''register'', Payload = [90]\<rparr>,
        \<lparr>RequestId = ''B'', Service = ''UserService'', Method = ''login'', Payload = [90]\<rparr>,
        \<lparr>RequestId = ''C'', Service = ''GachaService'', Method = ''draw'', Payload = []\<rparr>]"
    by (simp add: rt routed_def dispatch_def sample_pb_def main_routes main_entries_def byte_char_def char_of_def bit_0)
  from server_answers_every_request [OF b sample_machine_facts(1) sample_app_pb_ok sample_pb_ok _ frames s]
  have ids: "mset (map (\<lambda>(i, resp, d). RespRequestId resp) (answered s)) = {#''A'', ''B'', ''C'', ''D'', []#}"
    by (simp add: id max_frame_def del: list.map)
  show ?thesis by (intro exI conjI; (rule b s routed ids)?)
qed

definition demo_app_pb :: app_pb where
  "demo_app_pb =
     \<lparr>unmarshal_RegisterRequest = (\<lambda>p. Inr \<lparr>RegName = map byte_char p, RegPassword = ''pw''\<rparr>),
      marshal_RegisterResponse = (\<lambda>r. Inr [ucast (UserId r)]),
      unmarshal_LoginRequest = (\<lambda>p. Inr \<lparr>LoginName = map byte_char p, LoginPassword = ''pw''\<rparr>),
      marshal_LoginResponse = (\<lambda>r. Inr [ucast (UserId r)]),
      unmarshal_LogoutRequest = (\<lambda>p. Inr \<lparr>LogoutUserId = 0\<rparr>), marshal_LogoutResponse = (\<lambda>r. Inr []),
      unmarshal_DrawRequest = (\<lambda>p. Inl ''bad draw request''), marshal_DrawResponse = (\<lambda>r. Inr [])\<rparr>"

definition demo_app :: "nat app" where
  "demo_app = \<lparr>app_encoding = demo_app_pb, app_rand = sample_rand, app_pool = build_pool sample_ops,
     app_faults = (\<lambda>_. None), app_gacha = main_gacha defaultConfig ''host''\<rparr>"

section \<open>Accounts, through the wire format and the routes\<close>

text \<open>C7. End to end through router, generated handlers, service and table: after a request routed to
  \<open>UserService.register\<close> has created an account, a request routed to \<open>UserService.login\<close> with the
  same name, whatever calls came in between, is answered with that account's id if the password has
  the same hash, and with id 0 otherwise.\<close>

theorem register_then_login_over_rpc:
  assumes "users_inv (world_db w)" "users_seq (world_db w) < 2 ^ 63"
    and "app_faults a (db_clock w) = None" "app_faults a (db_clock w2) = None"
    and "unmarshal_RegisterRequest (app_encoding a) p1 = Inr req" "RegName req \<notin> row_name ` set (users (world_db w))"
    and "unmarshal_LoginRequest (app_encoding a) p2 = Inr \<lparr>LoginName = RegName req, LoginPassword = pw\<rparr>"
    and "Route (main_router a) ''UserService'' ''register'' = Some register_handler"
    and "Route (main_router a) ''UserService'' ''login'' = Some login_handler"
    and "world_db w2 = user_calls cs (world_db (snd (register_handler p1 w)))"
  shows "\<exists>resp. UserId resp = (if HashPassword pw = HashPassword (RegPassword req)
        then word_of_nat (users_seq (world_db w)) else 0) \<and>
    fst (login_handler p2 w2) = (case marshal_LoginResponse (app_encoding a) resp of Inl e \<Rightarrow> Fail e | Inr b \<Rightarrow> Reply b)"
proof -
  let ?h = "HashPassword (RegPassword req)" and ?i = "word_of_nat (users_seq (world_db w)) :: int64"
  have h: "register_handler = user_handlers a ''Register''" "login_handler = user_handlers a ''Login''"
    using assms(8,9) unfolding main_routes by (simp_all add: main_entries_def)
  obtain d1 where ins: "insert_user None (RegName req) ?h (world_db w) = (Inr ?i, d1)"
    using assms(2,6) by (auto simp: insert_user_def Let_def)
  have "world_db (snd (register_handler p1 w)) = d1"
    using assms(3,5) ins
    by (simp add: h user_handlers_def rpc_handler_def call_Register_def UserService_Register_def Let_def split: sum.splits)
  then have w2: "world_db w2 = user_calls cs d1" using assms(10) by simp
  have inv: "users_inv d1" using assms(1) ins by (rule tbl.insert_ok)
  have ok: "select_user None (RegName req) ?h (user_calls cs d1) = Inr ?i"
    unfolding user_calls_inserts
    by (rule tbl.accounts_stay [OF inv, THEN conjunct2]) (simp add: tbl.select_inserted [OF assms(1) ins])
  have bad: "HashPassword pw \<noteq> ?h \<Longrightarrow> select_user None (RegName req) (HashPassword pw) (user_calls cs d1) \<noteq> Inr j" for j
    unfolding user_calls_inserts using tbl.account_password [OF assms(1) ins] .
  let ?resp = "UserService_Login None \<lparr>LoginName = RegName req, LoginPassword = pw\<rparr> (world_db w2)"
  have "UserId ?resp = (if HashPassword pw = ?h then ?i else 0)"
    using ok bad by (auto simp: w2 UserService_Login_def split: sum.splits)
  moreover have "fst (login_handler p2 w2) =
      (case marshal_LoginResponse (app_encoding a) ?resp of Inl e \<Rightarrow> Fail e | Inr b \<Rightarrow> Reply b)"
    using assms(4,7) by (simp add: h user_handlers_def rpc_handler_def call_Login_def Let_def split: sum.splits)
  ultimately show ?thesis by blast
qed

theorem register_then_login_over_rpc_witness:
  "\<exists>hr hl. Route (main_router demo_app) ''UserService'' ''register'' = Some hr \<and>
     Route (main_router demo_app) ''UserService'' ''login'' = Some hl \<and>
     fst (hl [65] (snd (hr [65] \<lparr>world_db = empty_database ''dup'' ''end'', world_rand = 0, db_clock = 0\<rparr>))) = Reply [1]"
proof -
  let ?w = "\<lparr>world_db = empty_database ''dup'' ''end'', world_rand = 0, db_clock = 0\<rparr> :: nat app_world"
  let ?hr = "user_handlers demo_app ''Register''" and ?hl = "user_handlers demo_app ''Login''"
  have r: "Route (main_router demo_app) ''UserService'' ''register'' = Some ?hr"
    "Route (main_router demo_app) ''UserService'' ''login'' = Some ?hl"
    unfolding main_routes by (simp_all add: main_entries_def)
  have e: "unmarshal_RegisterRequest (app_encoding demo_app) [65] = Inr \<lparr>RegName = map byte_char [65], RegPassword = ''pw''\<rparr>"
    "unmarshal_LoginRequest (app_encoding demo_app) [65] =
      Inr \<lparr>LoginName = RegName \<lparr>RegName = map byte_char [65], RegPassword = ''pw''\<rparr>, LoginPassword = ''pw''\<rparr>"
    "app_faults demo_app = (\<lambda>_. None)" "marshal_LoginResponse (app_encoding demo_app) = (\<lambda>r. Inr [ucast (UserId r)])"
    by (simp_all add: demo_app_def demo_app_pb_def)
  have d: "users_inv (world_db ?w)" "users_seq (world_db ?w) = 1" "users (world_db ?w) = []"
    by (simp_all add: empty_database_def users_inv_def)
  have "\<exists>resp. UserId resp = (if HashPassword ''pw'' = HashPassword (RegPassword \<lparr>RegName = map byte_char [65], RegPassword = ''pw''\<rparr>)
        then word_of_nat (users_seq (world_db ?w)) else 0) \<and>
      fst (?hl [65] (snd (?hr [65] ?w))) =
        (case marshal_LoginResponse (app_encoding demo_app) resp of Inl e \<Rightarrow> Fail e | Inr b \<Rightarrow> Reply b)"
    by (rule register_then_login_over_rpc [where cs = "[]", OF d(1) _ _ _ e(1) _ e(2) r])
      (simp_all add: e empty_database_def user_calls_def)
  with r e show ?thesis by (auto simp: empty_database_def)
qed

section \<open>The registered address\<close>

text \<open>C40. The server registers the port it listens on: for a port that fits 31 bits, the conversion to the
  32-bit field of the registry messages is exact, registration and heartbeats carry the same number,
  and the listen address ends in it.\<close>

theorem registered_port_is_listening_port:
  assumes "0 \<le> sint (Port cfg)" "sint (Port cfg) < 2 ^ 31"
  shows "\<exists>p. sint p = sint (Port cfg) \<and>
    register_message (registry (main_server cfg a)) = Some (RM_Register \<lparr>RegPort = p, RegService = ServiceName cfg\<rparr>) \<and>
    heartbeat_message (registry (main_server cfg a)) = Some (RM_Heartbeat \<lparr>HbPort = p\<rparr>) \<and>
    addr (main_server cfg a) = ''0.0.0.0:'' @ show_int (sint p)"
proof -
  have "sint (ucast (Port cfg) :: int32) = sint (Port cfg)" using assms by (rule sint_ucast_int32)
  then show ?thesis
    by (intro exI [of _ "ucast (Port cfg)"])
      (simp add: main_server_def NewServer_def main_client_def NewClient_def register_message_def
        heartbeat_message_def ListenAddr_def)
qed

theorem registered_port_is_listening_port_witness:
  "\<exists>p. sint p = 8080 \<and> addr (main_server defaultConfig demo_app) = ''0.0.0.0:'' @ show_int (sint (p :: int32))"
  using registered_port_is_listening_port [of defaultConfig demo_app] by (auto simp: defaultConfig_def)

end
